theory Spec2Isabelle
  imports Complex_Main "HOL-Library.Log_Nat"
begin

section \<open>Python numbers: binary64 floats and unbounded integers\<close>

text \<open>
  The cover geometry of \<^verbatim>\<open>publish_pipeline.py\<close> is computed with Python floats
  (IEEE 754 binary64, round to nearest, ties to even) and unbounded integers. A float is
  modelled by the rational it denotes, or one of the three special values. The two zeros
  are identified: no operation of the program divides by a computed value or prints a
  sign, so \<^verbatim>\<open>-0.0\<close> and \<^verbatim>\<open>0.0\<close> behave alike. The exceptions the arithmetic and the
  canvas constructor of the imaging library can raise are values of \<open>pyerror\<close>; the source
  defines no exception of its own.
\<close>

datatype pyfloat = Fin rat | PInf | NInf | NaN

datatype pyerror = OverflowError | ValueError | ZeroDivisionError | MemoryError

definition bind_res :: "'e + 'a \<Rightarrow> ('a \<Rightarrow> 'e + 'b) \<Rightarrow> 'e + 'b" where
  "bind_res r f = (case r of Inl e \<Rightarrow> Inl e | Inr x \<Rightarrow> f x)"

text \<open>\<open>flog2 q\<close> is the integer \<open>k\<close> with \<open>2^k \<le> q < 2^(k+1)\<close>, for positive \<open>q\<close>.\<close>

definition flog2 :: "rat \<Rightarrow> int" where
  "flog2 q = (if 1 \<le> q then bitlen \<lfloor>q\<rfloor> - 1 else - bitlen (\<lceil>1 / q\<rceil> - 1))"

text \<open>Nearest integer, ties to the even one: Python's one-argument \<^verbatim>\<open>round\<close>.\<close>

definition round_half_even :: "rat \<Rightarrow> int" where
  "round_half_even q = (let f = \<lfloor>q\<rfloor>; r = q - of_int f in
     if r < 1 / 2 then f else if 1 / 2 < r then f + 1 else if even f then f else f + 1)"

text \<open>
  The exponent of the unit in the last place of the binary64 number nearest to \<open>q\<close>:
  53 significant bits, and never below the subnormal spacing \<open>2^-1074\<close>.
\<close>

definition ulp_exp :: "rat \<Rightarrow> int" where
  "ulp_exp q = max (flog2 \<bar>q\<bar> - 52) (- 1074)"

text \<open>
  Rounding an exact result to binary64: to the nearest multiple of the unit in the last
  place, ties to the even significand; a result of magnitude \<open>2^1024\<close> or more overflows
  to an infinity.
\<close>

definition rnd53 :: "rat \<Rightarrow> rat" where
  "rnd53 q = of_int (round_half_even (q / 2 powi ulp_exp q)) * 2 powi ulp_exp q"

definition fl :: "rat \<Rightarrow> pyfloat" where
  "fl q = (let r = rnd53 q in
     if 2 powi 1024 \<le> r then PInf else if r \<le> - (2 powi 1024) then NInf else Fin r)"

fun fsign :: "pyfloat \<Rightarrow> rat" where
  "fsign (Fin q) = sgn q"
| "fsign PInf = 1"
| "fsign NInf = - 1"
| "fsign NaN = 0"

definition signed_inf :: "rat \<Rightarrow> pyfloat" where
  "signed_inf s = (if 0 < s then PInf else if s < 0 then NInf else NaN)"

text \<open>Unary minus on a float.\<close>

fun fneg :: "pyfloat \<Rightarrow> pyfloat" where
  "fneg (Fin q) = Fin (- q)"
| "fneg PInf = NInf"
| "fneg NInf = PInf"
| "fneg NaN = NaN"

text \<open>Float multiplication and addition never raise in Python; overflow is an infinity.\<close>

fun fmul :: "pyfloat \<Rightarrow> pyfloat \<Rightarrow> pyfloat" where
  "fmul NaN y = NaN"
| "fmul x NaN = NaN"
| "fmul (Fin a) (Fin b) = fl (a * b)"
| "fmul x y = signed_inf (fsign x * fsign y)"

fun fadd :: "pyfloat \<Rightarrow> pyfloat \<Rightarrow> pyfloat" where
  "fadd NaN y = NaN"
| "fadd x NaN = NaN"
| "fadd (Fin a) (Fin b) = fl (a + b)"
| "fadd PInf NInf = NaN"
| "fadd NInf PInf = NaN"
| "fadd PInf y = PInf"
| "fadd x PInf = PInf"
| "fadd NInf y = NInf"
| "fadd x NInf = NInf"

text \<open>Float true division checks the divisor for zero first, then divides as IEEE does.\<close>

fun fdiv :: "pyfloat \<Rightarrow> pyfloat \<Rightarrow> pyerror + pyfloat" where
  "fdiv x (Fin b) =
     (if b = 0 then Inl ZeroDivisionError
      else Inr (case x of Fin a \<Rightarrow> fl (a / b) | NaN \<Rightarrow> NaN | _ \<Rightarrow> signed_inf (fsign x * sgn b)))"
| "fdiv NaN y = Inr NaN"
| "fdiv x NaN = Inr NaN"
| "fdiv (Fin a) y = Inr (Fin 0)"
| "fdiv x y = Inr NaN"

text \<open>
  An int operand of a float operation is converted first; an int beyond the float range
  raises \<^verbatim>\<open>OverflowError\<close> (int too large to convert to float).
\<close>

definition int_to_float :: "int \<Rightarrow> pyerror + pyfloat" where
  "int_to_float n = (case fl (of_int n) of Fin r \<Rightarrow> Inr (Fin r) | _ \<Rightarrow> Inl OverflowError)"


text \<open>\<^verbatim>\<open>round(x)\<close> and \<^verbatim>\<open>int(x)\<close> on a float: an int, or an exception on a special value.\<close>

fun py_round :: "pyfloat \<Rightarrow> pyerror + int" where
  "py_round (Fin q) = Inr (round_half_even q)"
| "py_round NaN = Inl ValueError"
| "py_round x = Inl OverflowError"


text \<open>Python's \<^verbatim>\<open><=\<close> on floats: false whenever a NaN is compared.\<close>

fun fle :: "pyfloat \<Rightarrow> pyfloat \<Rightarrow> bool" where
  "fle NaN y = False"
| "fle x NaN = False"
| "fle (Fin a) (Fin b) = (a \<le> b)"
| "fle NInf y = True"
| "fle x PInf = True"
| "fle x y = False"

section \<open>Unit conversion and spine width\<close>

text \<open>The float literal \<^verbatim>\<open>25.4\<close>.\<close>

definition c25_4 :: pyfloat where
  "c25_4 = fl (254 / 10)"

text \<open>\<^verbatim>\<open>return int(round(mm / 25.4 * dpi))\<close>\<close>

definition mm_to_px :: "pyfloat \<Rightarrow> int \<Rightarrow> pyerror + int" where
  "mm_to_px mm dpi =
     bind_res (fdiv mm c25_4) (\<lambda>inches.
     bind_res (int_to_float dpi) (\<lambda>d.
     py_round (fmul inches d)))"

text \<open>\<^verbatim>\<open>return page_count * thickness_per_page_mm\<close>\<close>

definition compute_spine_width_mm :: "int \<Rightarrow> pyfloat \<Rightarrow> pyerror + pyfloat" where
  "compute_spine_width_mm page_count thickness_per_page_mm =
     bind_res (int_to_float page_count) (\<lambda>p. Inr (fmul p thickness_per_page_mm))"

section \<open>Print wrap cover: geometry\<close>

text \<open>The configuration defaults of the module; \<^verbatim>\<open>0.0025\<close> is a float literal.\<close>

definition A8_MM :: "pyfloat \<times> pyfloat" where
  "A8_MM = (Fin 52, Fin 74)"

definition DEFAULT_BLEED_MM :: pyfloat where
  "DEFAULT_BLEED_MM = Fin 3"

definition DEFAULT_DPI :: int where
  "DEFAULT_DPI = 300"

definition DEFAULT_PAPER_THICKNESS_MM_PER_PAGE :: pyfloat where
  "DEFAULT_PAPER_THICKNESS_MM_PER_PAGE = fl (25 / 10000)"

text \<open>The numeric parameters of \<^verbatim>\<open>generate_print_wrap_cover_a8\<close>.\<close>

record cover_args =
  page_count :: int
  width_mm :: pyfloat
  height_mm :: pyfloat
  bleed_mm :: pyfloat
  dpi :: int
  thickness_per_page_mm :: pyfloat

text \<open>A call that passes only \<^verbatim>\<open>page_count\<close> and leaves every other numeric parameter at its default.\<close>

definition a8_default_args :: "int \<Rightarrow> cover_args" where
  "a8_default_args n = \<lparr>page_count = n, width_mm = fst A8_MM, height_mm = snd A8_MM,
     bleed_mm = DEFAULT_BLEED_MM, dpi = DEFAULT_DPI,
     thickness_per_page_mm = DEFAULT_PAPER_THICKNESS_MM_PER_PAGE\<rparr>"

text \<open>
  Ranges of inputs: a float that is finite and lies between two bounds, and a cover
  specification with \<open>dpi > 0\<close>, \<open>page_count \<ge> 0\<close> and non-negative finite mm quantities,
  none above \<open>2^200\<close>.
\<close>

definition float_within :: "rat \<Rightarrow> rat \<Rightarrow> pyfloat \<Rightarrow> bool" where
  "float_within lo hi x = (case x of Fin q \<Rightarrow> lo \<le> q \<and> q \<le> hi | _ \<Rightarrow> False)"

definition cover_spec_in_range :: "cover_args \<Rightarrow> bool" where
  "cover_spec_in_range a \<longleftrightarrow>
     0 < dpi a \<and> of_int (dpi a) \<le> (2::rat) powi 200
     \<and> 0 \<le> page_count a \<and> of_int (page_count a) \<le> (2::rat) powi 200
     \<and> float_within 0 (2 powi 200) (width_mm a)
     \<and> float_within 0 (2 powi 200) (height_mm a)
     \<and> float_within 0 (2 powi 200) (bleed_mm a)
     \<and> float_within 0 (2 powi 200) (thickness_per_page_mm a)"

text \<open>
  \<^verbatim>\<open>Image.new("RGB", (full_w_px, full_h_px), color=...)\<close> is a call into the imaging library.
  Whether it returns the canvas or raises (a negative size, a size beyond the range of the
  library's integers, not enough memory) is decided there and by the machine, so the
  constructor is a parameter of the model: from the width and the height to an exception
  or to the canvas, of which the geometry uses nothing.
\<close>

type_synonym image_new = "int \<Rightarrow> int \<Rightarrow> pyerror + unit"

text \<open>
  A stand-in for the constructor, for running the model on concrete inputs: a negative
  width or height raises \<^verbatim>\<open>ValueError\<close> and one beyond the range of a C \<^verbatim>\<open>int\<close> raises
  \<^verbatim>\<open>OverflowError\<close>, as the library does; every other canvas is returned, as on a machine
  that has the memory for it. No theorem about all inputs depends on it.
\<close>

definition Image_new_enough_memory :: image_new where
  "Image_new_enough_memory w h =
     (if w < 0 \<or> h < 0 then Inl ValueError
      else if 2 ^ 31 \<le> w \<or> 2 ^ 31 \<le> h then Inl OverflowError
      else Inr ())"

text \<open>
  The head of \<^verbatim>\<open>generate_print_wrap_cover_a8\<close>, up to the call of \<^verbatim>\<open>Image.new\<close>: the spine
  width, the full cover in mm and its two conversions, which are the width and the height
  the canvas is asked for. The int literal \<^verbatim>\<open>2\<close> converts to the float \<open>Fin 2\<close>.
\<close>

definition canvas_px :: "cover_args \<Rightarrow> pyerror + int \<times> int" where
  "canvas_px a =
     bind_res (compute_spine_width_mm (page_count a) (thickness_per_page_mm a)) (\<lambda>smm.
     let fw = fadd (fadd (fmul (width_mm a) (Fin 2)) smm) (fmul (Fin 2) (bleed_mm a));
         fh = fadd (height_mm a) (fmul (Fin 2) (bleed_mm a)) in
     bind_res (mm_to_px fw (dpi a)) (\<lambda>fwp.
     bind_res (mm_to_px fh (dpi a)) (\<lambda>fhp.
     Inr (fwp, fhp))))"

text \<open>The local variables of the function once the panel positions are computed.\<close>

record cover_layout =
  spine_mm :: pyfloat
  full_w_mm :: pyfloat
  full_h_mm :: pyfloat
  full_w_px :: int
  full_h_px :: int
  bleed_px :: int
  page_w_px :: int
  page_h_px :: int
  spine_px :: int
  back_cover_x :: int
  spine_x :: int
  front_cover_x :: int

text \<open>
  The geometry part of \<^verbatim>\<open>generate_print_wrap_cover_a8\<close>, statement by statement up to the
  panel positions: the spine width, the full cover in mm, the canvas in px, the call of
  \<^verbatim>\<open>Image.new\<close> with that size, then each component converted on its own and the three
  panel positions. The \<^verbatim>\<open>print\<close> calls are left out. The function contains no check and no
  \<^verbatim>\<open>raise\<close>: the only failures are those of the float arithmetic and of \<^verbatim>\<open>Image.new\<close>.
\<close>

definition generate_print_wrap_cover_a8 :: "image_new \<Rightarrow> cover_args \<Rightarrow> pyerror + cover_layout" where
  "generate_print_wrap_cover_a8 Image_new a =
     bind_res (compute_spine_width_mm (page_count a) (thickness_per_page_mm a)) (\<lambda>smm.
     let fw = fadd (fadd (fmul (width_mm a) (Fin 2)) smm) (fmul (Fin 2) (bleed_mm a));
         fh = fadd (height_mm a) (fmul (Fin 2) (bleed_mm a)) in
     bind_res (mm_to_px fw (dpi a)) (\<lambda>fwp.
     bind_res (mm_to_px fh (dpi a)) (\<lambda>fhp.
     bind_res (Image_new fwp fhp) (\<lambda>img.
     bind_res (mm_to_px (bleed_mm a) (dpi a)) (\<lambda>back_x.
     bind_res (mm_to_px (bleed_mm a) (dpi a)) (\<lambda>bp.
     bind_res (mm_to_px (width_mm a) (dpi a)) (\<lambda>pw.
     bind_res (mm_to_px (height_mm a) (dpi a)) (\<lambda>ph.
     bind_res (mm_to_px smm (dpi a)) (\<lambda>sp.
     let bx = 0 + bp; sx = bx + pw; fx = sx + sp in
     Inr \<lparr>spine_mm = smm, full_w_mm = fw, full_h_mm = fh, full_w_px = fwp, full_h_px = fhp,
          bleed_px = bp, page_w_px = pw, page_h_px = ph, spine_px = sp,
          back_cover_x = bx, spine_x = sx, front_cover_x = fx\<rparr>)))))))))"

text \<open>
  The three \<^verbatim>\<open>draw.rectangle([x0, y0, x1, y1], fill=...)\<close> calls, in the order drawn:
  back cover, spine, front cover.
\<close>

record rectangle =
  rect_x0 :: int
  rect_y0 :: int
  rect_x1 :: int
  rect_y1 :: int

definition back_rect :: "cover_layout \<Rightarrow> rectangle" where
  "back_rect L = \<lparr>rect_x0 = back_cover_x L, rect_y0 = bleed_px L,
     rect_x1 = back_cover_x L + page_w_px L, rect_y1 = bleed_px L + page_h_px L\<rparr>"

definition spine_rect :: "cover_layout \<Rightarrow> rectangle" where
  "spine_rect L = \<lparr>rect_x0 = spine_x L, rect_y0 = bleed_px L,
     rect_x1 = spine_x L + spine_px L, rect_y1 = bleed_px L + page_h_px L\<rparr>"

definition front_rect :: "cover_layout \<Rightarrow> rectangle" where
  "front_rect L = \<lparr>rect_x0 = front_cover_x L, rect_y0 = bleed_px L,
     rect_x1 = front_cover_x L + page_w_px L, rect_y1 = bleed_px L + page_h_px L\<rparr>"

text \<open>
  The difference of the corner coordinates of a box, and the pixel columns and rows that
  \<^verbatim>\<open>draw.rectangle\<close> fills for a box with \<open>x0 \<le> x1\<close> and \<open>y0 \<le> y1\<close>: the imaging library
  includes both corner points.
\<close>

definition rect_width :: "rectangle \<Rightarrow> int" where
  "rect_width r = rect_x1 r - rect_x0 r"




section \<open>Print wrap cover: text on the front panel\<close>
















section \<open>Rounding to the nearest integer\<close>

lemma rhe_range: "\<lfloor>q\<rfloor> \<le> round_half_even q \<and> round_half_even q \<le> \<lfloor>q\<rfloor> + 1"
  by (simp add: round_half_even_def Let_def)

lemma rhe_mono:
  assumes "q1 \<le> q2"
  shows "round_half_even q1 \<le> round_half_even q2"
proof (cases "\<lfloor>q1\<rfloor> = \<lfloor>q2\<rfloor>")
  case True
  then show ?thesis using assms by (auto simp: round_half_even_def Let_def)
next
  case False
  with floor_mono[OF assms] have "\<lfloor>q1\<rfloor> + 1 \<le> \<lfloor>q2\<rfloor>" by linarith
  then show ?thesis using rhe_range[of q1] rhe_range[of q2] by linarith
qed

lemma rhe_error: "\<bar>of_int (round_half_even q) - q\<bar> \<le> 1 / 2"
proof -
  have "of_int \<lfloor>q\<rfloor> \<le> q" "q < of_int \<lfloor>q\<rfloor> + 1" by linarith+
  then show ?thesis by (auto simp: round_half_even_def Let_def)
qed

lemma rhe_unique:
  assumes "of_int m - 1 / 2 < q" "q < of_int m + 1 / 2"
  shows "round_half_even q = m"
proof -
  have "\<bar>of_int (round_half_even q) - q\<bar> \<le> 1 / 2" by (rule rhe_error)
  with assms have "\<bar>(of_int (round_half_even q) :: rat) - of_int m\<bar> < 1" by linarith
  then have "\<bar>round_half_even q - m\<bar> < 1"
    by (metis of_int_abs of_int_diff of_int_less_1_iff)
  then show ?thesis by linarith
qed

lemma rhe_of_int: "round_half_even (of_int n) = n"
  by (rule rhe_unique) simp_all

lemma rhe_minus: "round_half_even (- q) = - round_half_even q"
proof (cases "q = of_int \<lfloor>q\<rfloor>")
  case True
  then obtain n where "q = of_int n" ..
  then have "- q = of_int (- n)" by simp
  then show ?thesis using \<open>q = of_int n\<close> by (simp only: rhe_of_int)
next
  case False
  then have c: "\<lceil>q\<rceil> = \<lfloor>q\<rfloor> + 1" by (simp add: ceiling_altdef)
  have "of_int \<lfloor>q\<rfloor> \<le> q" "q < of_int \<lfloor>q\<rfloor> + 1" by linarith+
  then show ?thesis
    by (auto simp: round_half_even_def Let_def floor_minus c)
qed

lemma rhe_tie_even:
  assumes "\<bar>of_int (round_half_even q) - q\<bar> = 1 / 2"
  shows "even (round_half_even q)"
proof -
  have "of_int \<lfloor>q\<rfloor> \<le> q" "q < of_int \<lfloor>q\<rfloor> + 1" by linarith+
  then show ?thesis using assms
    by (auto simp: round_half_even_def Let_def split: if_splits)
qed

section \<open>Binary logarithm and the unit in the last place\<close>

lemma two_powi_pos: "0 < (2::rat) powi k"
  by (simp add: power_int_def)

lemma two_powi_nonneg_exp: "0 \<le> k \<Longrightarrow> (2::rat) powi k = of_int (2 ^ nat k)"
  by (simp add: power_int_def)

lemma two_powi_less_iff: "(2::rat) powi a < 2 powi b \<longleftrightarrow> a < b"
  by (metis linorder_not_less one_less_numeral_iff power_int_increasing power_int_strict_increasing semiring_norm(76) order_less_imp_le)

lemma two_powi_le_iff: "(2::rat) powi a \<le> 2 powi b \<longleftrightarrow> a \<le> b"
  by (metis two_powi_less_iff linorder_not_less)

lemma flog2_lower:
  assumes "0 < q"
  shows "2 powi flog2 q \<le> q"
proof (cases "1 \<le> q")
  case True
  define n where "n = \<lfloor>q\<rfloor>"
  have n1: "1 \<le> n" using True by (simp add: n_def le_floor_iff)
  then have b1: "1 \<le> bitlen n" by (simp add: bitlen_ge_iff_power)
  have "2 ^ nat (bitlen n - 1) \<le> n" using bitlen_bounds[of n] n1 by simp
  then have "(of_int (2 ^ nat (bitlen n - 1)) :: rat) \<le> of_int n" by (simp only: of_int_le_iff)
  also have "\<dots> \<le> q" by (simp add: n_def)
  finally show ?thesis using True b1 by (simp add: flog2_def n_def two_powi_nonneg_exp)
next
  case False
  define t where "t = 1 / q"
  define n where "n = \<lceil>t\<rceil>"
  define j where "j = bitlen (n - 1)"
  have t1: "1 < t" using False assms by (simp add: t_def)
  then have n2: "2 \<le> n" by (simp add: n_def le_ceiling_iff)
  have j0: "0 \<le> j" by (simp add: j_def bitlen_nonneg)
  have "n - 1 < 2 ^ nat j" using bitlen_bounds[of "n - 1"] n2 by (simp add: j_def)
  then have "n \<le> 2 ^ nat j" by simp
  then have "(of_int n :: rat) \<le> of_int (2 ^ nat j)" by (simp only: of_int_le_iff)
  moreover have "t \<le> of_int n" by (simp add: n_def)
  ultimately have "t \<le> of_int (2 ^ nat j)" by (rule order_trans[rotated])
  then have "t \<le> 2 powi j" by (simp only: two_powi_nonneg_exp[OF j0])
  then have "1 / (2 powi j) \<le> 1 / t"
    using t1 by (intro divide_left_mono) (auto simp: two_powi_pos)
  then have "2 powi (- j) \<le> q" using assms by (simp add: t_def power_int_minus field_simps)
  then show ?thesis using False by (simp add: flog2_def j_def n_def t_def)
qed

lemma flog2_upper:
  assumes "0 < q"
  shows "q < 2 powi (flog2 q + 1)"
proof (cases "1 \<le> q")
  case True
  define n where "n = \<lfloor>q\<rfloor>"
  have n1: "1 \<le> n" using True by (simp add: n_def le_floor_iff)
  then have b1: "1 \<le> bitlen n" by (simp add: bitlen_ge_iff_power)
  have "n < 2 ^ nat (bitlen n)" using bitlen_bounds[of n] n1 by simp
  then have "n + 1 \<le> 2 ^ nat (bitlen n)" by simp
  then have "(of_int (n + 1) :: rat) \<le> of_int (2 ^ nat (bitlen n))" by (simp only: of_int_le_iff)
  moreover have "q < of_int (n + 1)" unfolding n_def by linarith
  ultimately have "q < of_int (2 ^ nat (bitlen n))" by linarith
  then show ?thesis using True b1 by (simp add: flog2_def n_def two_powi_nonneg_exp)
next
  case False
  define t where "t = 1 / q"
  define n where "n = \<lceil>t\<rceil>"
  define j where "j = bitlen (n - 1)"
  have t1: "1 < t" using False assms by (simp add: t_def)
  then have n2: "2 \<le> n" by (simp add: n_def le_ceiling_iff)
  then have j1: "1 \<le> j" by (simp add: j_def bitlen_ge_iff_power)
  have "2 ^ nat (j - 1) \<le> n - 1" using bitlen_bounds[of "n - 1"] n2 by (simp add: j_def)
  then have "(of_int (2 ^ nat (j - 1)) :: rat) \<le> of_int (n - 1)" by (simp only: of_int_le_iff)
  moreover have "of_int (n - 1) < t" unfolding n_def by linarith
  ultimately have "of_int (2 ^ nat (j - 1)) < t" by (rule order_le_less_trans)
  then have "2 powi (j - 1) < t" using j1 by (simp only: two_powi_nonneg_exp[of "j - 1"])
  then have "1 / t < 1 / (2 powi (j - 1))"
    using t1 by (intro divide_strict_left_mono) (auto simp: two_powi_pos)
  moreover have "1 / t = q" by (simp add: t_def)
  moreover have "1 / 2 powi (j - 1) = (2::rat) powi (- (j - 1))"
    by (simp only: power_int_minus inverse_eq_divide)
  ultimately have "q < 2 powi (- (j - 1))" by (simp only:)
  then show ?thesis using False by (simp add: flog2_def j_def n_def t_def)
qed

lemma flog2_unique:
  assumes "2 powi k \<le> q" "q < 2 powi (k + 1)"
  shows "flog2 q = k"
proof -
  have q: "0 < q" using assms(1) two_powi_pos[of k] by linarith
  have "2 powi flog2 q < (2::rat) powi (k + 1)" using flog2_lower[OF q] assms(2) by linarith
  then have "flog2 q < k + 1" by (simp only: two_powi_less_iff)
  moreover have "(2::rat) powi k < 2 powi (flog2 q + 1)" using flog2_upper[OF q] assms(1) by linarith
  then have "k < flog2 q + 1" by (simp only: two_powi_less_iff)
  ultimately show ?thesis by linarith
qed

lemma flog2_mono:
  assumes "0 < q1" "q1 \<le> q2"
  shows "flog2 q1 \<le> flog2 q2"
proof -
  have "2 powi flog2 q1 < (2::rat) powi (flog2 q2 + 1)"
    using flog2_lower[OF assms(1)] flog2_upper[of q2] assms by linarith
  then have "flog2 q1 < flog2 q2 + 1" by (simp only: two_powi_less_iff)
  then show ?thesis by linarith
qed

lemma two_powi_add: "(2::rat) powi (a + b) = 2 powi a * 2 powi b"
  by (simp add: power_int_add)

lemma two_powi_div: "x / (2::rat) powi e = x * 2 powi (- e)"
  by (simp add: power_int_minus divide_inverse)

lemma rhe_le: "q \<le> of_int n \<Longrightarrow> round_half_even q \<le> n"
  using rhe_mono[of q "of_int n"] by (simp add: rhe_of_int)

lemma rhe_ge: "of_int n \<le> q \<Longrightarrow> n \<le> round_half_even q"
  using rhe_mono[of "of_int n" q] by (simp add: rhe_of_int)

lemma ulp_exp_minus: "ulp_exp (- q) = ulp_exp q"
  by (simp add: ulp_exp_def)

lemma ulp_exp_ge: "- 1074 \<le> ulp_exp q"
  by (simp add: ulp_exp_def)

lemma ulp_exp_mono: "0 < q1 \<Longrightarrow> q1 \<le> q2 \<Longrightarrow> ulp_exp q1 \<le> ulp_exp q2"
  using flog2_mono[of q1 q2] by (simp add: ulp_exp_def)

lemma ulp_exp_upper:
  assumes "0 < q"
  shows "q < 2 powi (ulp_exp q + 53)"
proof -
  have "flog2 q + 1 \<le> ulp_exp q + 53" using assms by (simp add: ulp_exp_def)
  then have "(2::rat) powi (flog2 q + 1) \<le> 2 powi (ulp_exp q + 53)"
    by (simp only: two_powi_le_iff)
  with flog2_upper[OF assms] show ?thesis by linarith
qed

lemma ulp_exp_lower:
  assumes "0 < q" "- 1074 < ulp_exp q"
  shows "2 powi (ulp_exp q + 52) \<le> q"
proof -
  have "ulp_exp q = flog2 q - 52" using assms by (simp add: ulp_exp_def split: if_splits)
  then have "ulp_exp q + 52 = flog2 q" by simp
  with flog2_lower[OF assms(1)] show ?thesis by simp
qed

lemma ulp_exp_eq:
  assumes "2 powi (e + 52) \<le> \<bar>q\<bar>" "\<bar>q\<bar> < 2 powi (e + 53)" "- 1074 \<le> e"
  shows "ulp_exp q = e"
proof -
  have "flog2 \<bar>q\<bar> = e + 52" using assms(1,2) by (intro flog2_unique) (simp_all add: add.commute add.left_commute)
  then show ?thesis using assms(3) by (simp add: ulp_exp_def)
qed

lemma ulp_exp_subnormal:
  assumes "q \<noteq> 0" "\<bar>q\<bar> < 2 powi (- 1021)"
  shows "ulp_exp q = - 1074"
proof -
  have "0 < \<bar>q\<bar>" using assms(1) by simp
  from flog2_lower[OF this] assms(2) have "(2::rat) powi flog2 \<bar>q\<bar> < 2 powi (- 1021)" by linarith
  then have "flog2 \<bar>q\<bar> < - 1021" by (simp only: two_powi_less_iff)
  then show ?thesis by (simp add: ulp_exp_def)
qed

lemma rnd53_zero: "rnd53 0 = 0"
  by (simp add: rnd53_def rhe_of_int[of 0, simplified])

lemma rnd53_minus: "rnd53 (- q) = - rnd53 q"
  by (simp add: rnd53_def ulp_exp_minus rhe_minus)

lemma rnd53_nonneg: "0 \<le> q \<Longrightarrow> 0 \<le> rnd53 q"
proof -
  assume "0 \<le> q"
  then have "(of_int 0 :: rat) \<le> q / 2 powi ulp_exp q" by (simp add: two_powi_pos less_imp_le)
  then have "0 \<le> round_half_even (q / 2 powi ulp_exp q)" by (rule rhe_ge)
  then show ?thesis by (simp add: rnd53_def two_powi_pos less_imp_le)
qed

lemma rnd53_error: "\<bar>rnd53 q - q\<bar> \<le> 2 powi ulp_exp q / 2"
proof -
  define e where "e = ulp_exp q"
  have p: "0 < (2::rat) powi e" by (rule two_powi_pos)
  have "\<bar>of_int (round_half_even (q / 2 powi e)) - q / 2 powi e\<bar> * 2 powi e \<le> 1 / 2 * 2 powi e"
    using rhe_error[of "q / 2 powi e"] p by (intro mult_right_mono) simp_all
  moreover have "\<bar>of_int (round_half_even (q / 2 powi e)) - q / 2 powi e\<bar> * 2 powi e
      = \<bar>of_int (round_half_even (q / 2 powi e)) * 2 powi e - q\<bar>"
  proof -
    have "\<bar>of_int (round_half_even (q / 2 powi e)) - q / 2 powi e\<bar> * \<bar>2 powi e\<bar>
      = \<bar>(of_int (round_half_even (q / 2 powi e)) - q / 2 powi e) * 2 powi e\<bar>"
      by (simp only: abs_mult)
    also have "(of_int (round_half_even (q / 2 powi e)) - q / 2 powi e) * 2 powi e
      = of_int (round_half_even (q / 2 powi e)) * 2 powi e - q"
      using p by (simp add: field_simps)
    finally show ?thesis using p by simp
  qed
  ultimately have "\<bar>of_int (round_half_even (q / 2 powi e)) * 2 powi e - q\<bar> \<le> 2 powi e / 2"
    by linarith
  then show ?thesis by (simp only: rnd53_def e_def)
qed

lemma rnd53_certificate:
  assumes "ulp_exp q = e" "of_int m - 1 / 2 < q / 2 powi e" "q / 2 powi e < of_int m + 1 / 2"
  shows "rnd53 q = of_int m * 2 powi e"
  using rhe_unique[OF assms(2,3)] assms(1) by (simp add: rnd53_def)

lemma rnd53_mono_pos:
  assumes "0 < q1" "q1 \<le> q2"
  shows "rnd53 q1 \<le> rnd53 q2"
proof -
  define e1 where "e1 = ulp_exp q1"
  define e2 where "e2 = ulp_exp q2"
  have q2: "0 < q2" using assms by linarith
  have le: "e1 \<le> e2" unfolding e1_def e2_def using assms by (rule ulp_exp_mono)
  show ?thesis
  proof (cases "e1 = e2")
    case True
    have "q1 / 2 powi e2 \<le> q2 / 2 powi e2"
      using assms(2) two_powi_pos[of e2] by (simp add: divide_right_mono less_imp_le)
    then have "round_half_even (q1 / 2 powi e2) \<le> round_half_even (q2 / 2 powi e2)"
      by (rule rhe_mono)
    then have "(of_int (round_half_even (q1 / 2 powi e2)) :: rat) * 2 powi e2
        \<le> of_int (round_half_even (q2 / 2 powi e2)) * 2 powi e2"
      using two_powi_pos[of e2] by (intro mult_right_mono) (simp_all add: less_imp_le)
    then show ?thesis using True by (simp add: rnd53_def e1_def e2_def)
  next
    case False
    then have lt: "e1 + 1 \<le> e2" using le by simp
    have "- 1074 < e2" using lt ulp_exp_ge[of q1] by (simp add: e1_def)
    then have "2 powi (e2 + 52) \<le> q2" unfolding e2_def using q2 by (intro ulp_exp_lower)
    then have "(2::rat) powi 52 * 2 powi e2 \<le> q2" by (simp add: two_powi_add mult.commute)
    then have "of_int (2 ^ 52) \<le> q2 / 2 powi e2"
      using two_powi_pos[of e2] by (simp add: pos_le_divide_eq)
    then have "2 ^ 52 \<le> round_half_even (q2 / 2 powi e2)" by (rule rhe_ge)
    then have "(of_int (2 ^ 52) :: rat) \<le> of_int (round_half_even (q2 / 2 powi e2))"
      by (simp only: of_int_le_iff)
    then have "(of_int (2 ^ 52) :: rat) * 2 powi e2 \<le> of_int (round_half_even (q2 / 2 powi e2)) * 2 powi e2"
      using two_powi_pos[of e2] by (intro mult_right_mono) (simp_all add: less_imp_le)
    then have hi: "2 powi (e2 + 52) \<le> rnd53 q2"
      by (simp add: rnd53_def e2_def two_powi_add mult.commute)
    have "q1 < 2 powi (e1 + 53)" unfolding e1_def using assms(1) by (rule ulp_exp_upper)
    then have "q1 < (2::rat) powi 53 * 2 powi e1" by (simp add: two_powi_add mult.commute)
    then have "q1 / 2 powi e1 \<le> of_int (2 ^ 53)"
      using two_powi_pos[of e1] by (simp add: pos_divide_le_eq less_imp_le)
    then have "round_half_even (q1 / 2 powi e1) \<le> 2 ^ 53" by (rule rhe_le)
    then have "(of_int (round_half_even (q1 / 2 powi e1)) :: rat) \<le> of_int (2 ^ 53)"
      by (simp only: of_int_le_iff)
    then have "(of_int (round_half_even (q1 / 2 powi e1)) :: rat) * 2 powi e1 \<le> of_int (2 ^ 53) * 2 powi e1"
      using two_powi_pos[of e1] by (intro mult_right_mono) (simp_all add: less_imp_le)
    then have lo: "rnd53 q1 \<le> 2 powi (e1 + 53)"
      by (simp add: rnd53_def e1_def two_powi_add mult.commute)
    have "e1 + 53 \<le> e2 + 52" using lt by simp
    then have "(2::rat) powi (e1 + 53) \<le> 2 powi (e2 + 52)" by (simp only: two_powi_le_iff)
    with lo hi show ?thesis by linarith
  qed
qed

lemma rnd53_mono:
  assumes "q1 \<le> q2"
  shows "rnd53 q1 \<le> rnd53 q2"
proof -
  consider "0 < q1" | "q1 \<le> 0" "0 \<le> q2" | "q2 < 0" by linarith
  then show ?thesis
  proof cases
    case 1
    then show ?thesis using assms by (rule rnd53_mono_pos)
  next
    case 2
    have "0 \<le> rnd53 (- q1)" using 2(1) by (intro rnd53_nonneg) simp
    then have "rnd53 q1 \<le> 0" by (simp add: rnd53_minus)
    moreover have "0 \<le> rnd53 q2" using 2(2) by (rule rnd53_nonneg)
    ultimately show ?thesis by linarith
  next
    case 3
    have "rnd53 (- q2) \<le> rnd53 (- q1)" using 3 assms by (intro rnd53_mono_pos) simp_all
    then show ?thesis by (simp add: rnd53_minus)
  qed
qed

section \<open>Rounding to binary64\<close>

lemma rnd53_exact:
  assumes "\<bar>m\<bar> < 2 ^ 53" "- 1074 \<le> e"
  shows "rnd53 (of_int m * 2 powi e) = of_int m * 2 powi e"
proof (cases "m = 0")
  case True
  then show ?thesis by (simp add: rnd53_zero)
next
  case False
  define q :: rat where "q = of_int m * 2 powi e"
  define e' where "e' = ulp_exp q"
  have q0: "0 < \<bar>q\<bar>" using False by (simp add: q_def two_powi_pos less_imp_neq[OF two_powi_pos, THEN not_sym])
  have "(of_int \<bar>m\<bar> :: rat) < of_int (2 ^ 53)" using assms(1) by (simp only: of_int_less_iff)
  then have "of_int \<bar>m\<bar> * (2::rat) powi e < of_int (2 ^ 53) * 2 powi e"
    using two_powi_pos[of e] by (simp only: mult_less_cancel_right_pos)
  moreover have "\<bar>q\<bar> = of_int \<bar>m\<bar> * 2 powi e"
    using two_powi_pos[of e] by (simp add: q_def abs_mult less_imp_le)
  ultimately have "\<bar>q\<bar> < 2 powi (e + 53)" by (simp add: two_powi_add mult.commute)
  with flog2_lower[OF q0] have "(2::rat) powi flog2 \<bar>q\<bar> < 2 powi (e + 53)" by linarith
  then have "flog2 \<bar>q\<bar> < e + 53" by (simp only: two_powi_less_iff)
  then have le: "e' \<le> e" using assms(2) by (simp add: e'_def ulp_exp_def)
  define d where "d = nat (e - e')"
  have e: "e = e' + int d" using le by (simp add: d_def)
  have "q / 2 powi e' = of_int (m * 2 ^ d)"
    using two_powi_pos[of e'] by (simp add: q_def e two_powi_add)
  then have "round_half_even (q / 2 powi e') = m * 2 ^ d" by (simp only: rhe_of_int)
  then have "rnd53 q = of_int (m * 2 ^ d) * 2 powi e'" by (simp add: rnd53_def e'_def)
  also have "\<dots> = q" by (simp add: q_def e two_powi_add)
  finally show ?thesis by (simp only: q_def)
qed

lemma rnd53_pow2: "- 1074 \<le> k \<Longrightarrow> rnd53 (2 powi k) = 2 powi k"
  using rnd53_exact[of 1 k] by simp

lemma rnd53_int: "\<bar>n\<bar> < 2 ^ 53 \<Longrightarrow> rnd53 (of_int n) = of_int n"
  using rnd53_exact[of n 0] by simp

lemma rnd53_bound:
  assumes "\<bar>q\<bar> \<le> 2 powi k" "- 1074 \<le> k"
  shows "\<bar>rnd53 q\<bar> \<le> 2 powi k"
proof -
  have "rnd53 q \<le> rnd53 (2 powi k)" using assms(1) by (intro rnd53_mono) linarith
  moreover have "rnd53 (- (2 powi k)) \<le> rnd53 q" using assms(1) by (intro rnd53_mono) linarith
  ultimately show ?thesis using assms(2) by (simp add: rnd53_minus rnd53_pow2 abs_le_iff)
qed

lemma fl_Fin:
  assumes "\<bar>rnd53 q\<bar> < 2 powi 1024"
  shows "fl q = Fin (rnd53 q)"
proof -
  have "\<not> 2 powi 1024 \<le> rnd53 q" "\<not> rnd53 q \<le> - (2 powi 1024)" using assms by linarith+
  then show ?thesis by (simp only: fl_def Let_def if_False)
qed

lemma fl_finite:
  assumes "\<bar>q\<bar> \<le> 2 powi k" "- 1074 \<le> k" "k \<le> 1023"
  shows "fl q = Fin (rnd53 q)" "\<bar>rnd53 q\<bar> \<le> 2 powi k"
proof -
  show b: "\<bar>rnd53 q\<bar> \<le> 2 powi k" using assms(1,2) by (rule rnd53_bound)
  have "k < 1024" using assms(3) by simp
  then have "(2::rat) powi k < 2 powi 1024" by (simp only: two_powi_less_iff)
  with b have "\<bar>rnd53 q\<bar> < 2 powi 1024" by linarith
  then show "fl q = Fin (rnd53 q)" by (rule fl_Fin)
qed

lemma fl_zero: "fl 0 = Fin 0"
  using fl_finite(1)[of 0 0] by (simp add: rnd53_zero)

lemma fl_int: "\<bar>n\<bar> < 2 ^ 53 \<Longrightarrow> fl (of_int n) = Fin (of_int n)"
proof -
  assume a: "\<bar>n\<bar> < 2 ^ 53"
  then have "(of_int \<bar>n\<bar> :: rat) \<le> of_int (2 ^ 53)" by (simp only: of_int_le_iff)
  then have "\<bar>of_int n :: rat\<bar> \<le> 2 powi 53" by simp
  from fl_finite(1)[OF this] show ?thesis using a by (simp add: rnd53_int)
qed

lemma fl_certificate:
  assumes "2 powi (e + 52) \<le> \<bar>q\<bar>" "\<bar>q\<bar> < 2 powi (e + 53)" "- 1074 \<le> e" "e \<le> 970"
    and "of_int m - 1 / 2 < q / 2 powi e" "q / 2 powi e < of_int m + 1 / 2"
  shows "fl q = Fin (of_int m * 2 powi e)"
proof -
  have u: "ulp_exp q = e" using assms(1,2,3) by (rule ulp_exp_eq)
  have r: "rnd53 q = of_int m * 2 powi e" using u assms(5,6) by (rule rnd53_certificate)
  have "\<bar>q\<bar> \<le> 2 powi (e + 53)" using assms(2) by simp
  from fl_finite(1)[OF this] assms(3,4) show ?thesis by (simp add: r)
qed

lemma fl_cases:
  obtains (fin) "fl q = Fin (rnd53 q)" "\<bar>rnd53 q\<bar> < 2 powi 1024"
  | (pinf) "fl q = PInf" "2 powi 1024 \<le> rnd53 q"
  | (ninf) "fl q = NInf" "rnd53 q \<le> - (2 powi 1024)"
proof -
  have p: "0 < (2::rat) powi 1024" by (rule two_powi_pos)
  consider "2 powi 1024 \<le> rnd53 q" | "rnd53 q \<le> - (2 powi 1024)" | "\<bar>rnd53 q\<bar> < 2 powi 1024"
    by linarith
  then show ?thesis
  proof cases
    case 1 then show ?thesis using pinf by (simp add: fl_def)
  next
    case 2 
    then have "\<not> 2 powi 1024 \<le> rnd53 q" using p by linarith
    then show ?thesis using 2 ninf by (simp add: fl_def)
  next
    case 3 then show ?thesis using fin fl_Fin by simp
  qed
qed

lemma fl_mono:
  assumes "q1 \<le> q2"
  shows "fle (fl q1) (fl q2)"
proof -
  have m: "rnd53 q1 \<le> rnd53 q2" using assms by (rule rnd53_mono)
  have p: "0 < (2::rat) powi 1024" by (rule two_powi_pos)
  show ?thesis
  proof (cases q1 rule: fl_cases)
    case fin
    note f1 = this
    show ?thesis
    proof (cases q2 rule: fl_cases)
      case fin
      then show ?thesis using f1 m by simp
    next
      case pinf
      then show ?thesis using f1 by simp
    next
      case ninf
      then have False using f1(2) m by linarith
      then show ?thesis ..
    qed
  next
    case pinf
    note f1 = this
    show ?thesis
    proof (cases q2 rule: fl_cases)
      case fin
      then have False using f1(2) m by linarith
      then show ?thesis ..
    next
      case pinf
      then show ?thesis using f1 by simp
    next
      case ninf
      then have False using f1(2) m p by linarith
      then show ?thesis ..
    qed
  next
    case ninf
    then show ?thesis by (cases q2 rule: fl_cases) simp_all
  qed
qed

lemma fl_minus: "fl (- q) = fneg (fl q)"
proof -
  have p: "0 < (2::rat) powi 1024" by (rule two_powi_pos)
  show ?thesis
  proof (cases q rule: fl_cases)
    case fin
    then have "\<bar>rnd53 (- q)\<bar> < 2 powi 1024" by (simp add: rnd53_minus)
    from fl_Fin[OF this] fin show ?thesis by (simp add: rnd53_minus)
  next
    case pinf
    then have "\<not> 2 powi 1024 \<le> rnd53 (- q)" "rnd53 (- q) \<le> - (2 powi 1024)"
      using p by (simp_all add: rnd53_minus)
    then have "fl (- q) = NInf" by (simp only: fl_def Let_def if_False if_True)
    then show ?thesis using pinf by simp
  next
    case ninf
    then have "2 powi 1024 \<le> rnd53 (- q)" by (simp add: rnd53_minus)
    then have "fl (- q) = PInf" by (simp only: fl_def Let_def if_True)
    then show ?thesis using ninf by simp
  qed
qed

lemma fl_between:
  assumes "q1 \<le> q2" "q2 \<le> q3" "fl q1 = Fin r1" "fl q3 = Fin r3"
  shows "\<exists>r2. fl q2 = Fin r2 \<and> r1 \<le> r2 \<and> r2 \<le> r3"
proof -
  have a: "fle (fl q1) (fl q2)" using assms(1) by (rule fl_mono)
  have b: "fle (fl q2) (fl q3)" using assms(2) by (rule fl_mono)
  show ?thesis using a b assms(3,4) by (cases "fl q2") simp_all
qed


lemma c25_4_val: "c25_4 = Fin (3574732204225331 / 140737488355328)"
  unfolding c25_4_def
  using fl_certificate[where q="254/10" and e="-48" and m=7149464408450662] by simp

lemma int_to_float_zero: "int_to_float 0 = Inr (Fin 0)"
  by (simp add: int_to_float_def fl_zero)

lemma int_to_float_small: "\<bar>n\<bar> < 2 ^ 53 \<Longrightarrow> int_to_float n = Inr (Fin (of_int n))"
  by (simp add: int_to_float_def fl_int)

lemma int_to_float_cases:
  obtains (ok) r where "int_to_float n = Inr (Fin r)" "fl (of_int n) = Fin r"
  | (err) "int_to_float n = Inl OverflowError"
  by (cases "fl (of_int n)") (simp_all add: int_to_float_def)

lemma int_to_float_Inr: "int_to_float n = Inr x \<Longrightarrow> \<exists>r. x = Fin r \<and> fl (of_int n) = Fin r"
  by (cases "fl (of_int n)") (auto simp: int_to_float_def)

lemma int_to_float_pos:
  assumes "0 < n" "int_to_float n = Inr (Fin r)"
  shows "1 \<le> r"
proof -
  from int_to_float_Inr[OF assms(2)] have f: "fl (of_int n) = Fin r" by simp
  have "(1::rat) \<le> of_int n" using assms(1) by simp
  from fl_mono[OF this] f show ?thesis using fl_int[of 1] by simp
qed

lemma int_to_float_minus:
  "int_to_float (- n) = (case int_to_float n of Inl e \<Rightarrow> Inl e | Inr x \<Rightarrow> Inr (fneg x))"
  by (cases "fl (of_int n)") (simp_all add: int_to_float_def fl_minus)

lemma int_to_float_bounded:
  assumes "\<bar>n\<bar> \<le> 2 ^ k" "int k \<le> 1023"
  shows "\<exists>r. int_to_float n = Inr (Fin r) \<and> \<bar>r\<bar> \<le> 2 ^ k"
proof -
  have "(of_int \<bar>n\<bar> :: rat) \<le> of_int (2 ^ k)" using assms(1) by (simp only: of_int_le_iff)
  then have "\<bar>of_int n :: rat\<bar> \<le> 2 powi (int k)" by simp
  from fl_finite[OF this] assms(2) show ?thesis by (simp add: int_to_float_def)
qed

lemma fmul_fneg_right: "fmul x (fneg y) = fneg (fmul x y)"
  by (cases x; cases y) (simp_all add: fl_minus signed_inf_def sgn_if)

lemma py_round_fneg:
  "py_round (fneg y) = (case py_round y of Inl e \<Rightarrow> Inl e | Inr n \<Rightarrow> Inr (- n))"
  by (cases y) (simp_all add: rhe_minus)

lemma fdiv_c25_4:
  "fdiv x c25_4 = Inr (case x of Fin a \<Rightarrow> fl (a / (3574732204225331 / 140737488355328)) | PInf \<Rightarrow> PInf
     | NInf \<Rightarrow> NInf | NaN \<Rightarrow> NaN)"
  by (cases x) (simp_all add: c25_4_val signed_inf_def)

lemma mm_to_px_NaN: "mm_to_px NaN d \<noteq> Inr n"
  by (cases d rule: int_to_float_cases) (simp_all add: mm_to_px_def bind_res_def fdiv_c25_4)

lemma mm_to_px_PInf: "0 < d \<Longrightarrow> mm_to_px PInf d = Inl OverflowError"
proof (cases d rule: int_to_float_cases)
  case (ok r)
  assume "0 < d"
  from int_to_float_pos[OF this ok(1)] have "0 < r" by linarith
  then show ?thesis using ok by (simp add: mm_to_px_def bind_res_def fdiv_c25_4 signed_inf_def)
next
  case err
  then show ?thesis by (simp add: mm_to_px_def bind_res_def fdiv_c25_4)
qed

lemma mm_to_px_zero_gen: "mm_to_px (Fin 0) d = Inr n \<Longrightarrow> n = 0"
  by (cases d rule: int_to_float_cases)
    (simp_all add: mm_to_px_def bind_res_def fdiv_c25_4 fl_zero rhe_of_int[of 0, simplified])

lemma mm_to_px_zero: "int_to_float d = Inr x \<Longrightarrow> mm_to_px (Fin 0) d = Inr 0"
  by (cases d rule: int_to_float_cases)
    (auto simp: mm_to_px_def bind_res_def fdiv_c25_4 fl_zero rhe_of_int[of 0, simplified])

lemma mm_to_px_Inr:
  assumes "mm_to_px (Fin q) d = Inr n"
  obtains x r v where "fl (q / (3574732204225331 / 140737488355328)) = Fin x"
    "int_to_float d = Inr (Fin r)" "fl (x * r) = Fin v" "n = round_half_even v"
proof (cases d rule: int_to_float_cases)
  case (ok r)
  show ?thesis
  proof (cases "fl (q / (3574732204225331 / 140737488355328))")
    case (Fin x)
    show ?thesis
    proof (cases "fl (x * r)")
      case (Fin v)
      with \<open>fl (q / _) = Fin x\<close> ok assms that show ?thesis
        by (simp add: mm_to_px_def bind_res_def fdiv_c25_4)
    qed (use \<open>fl (q / _) = Fin x\<close> ok assms in \<open>simp_all add: mm_to_px_def bind_res_def fdiv_c25_4\<close>)
  next
    case PInf
    then show ?thesis using ok assms
      by (simp add: mm_to_px_def bind_res_def fdiv_c25_4 signed_inf_def split: if_splits)
  next
    case NInf
    then show ?thesis using ok assms
      by (simp add: mm_to_px_def bind_res_def fdiv_c25_4 signed_inf_def split: if_splits)
  next
    case NaN
    then show ?thesis using ok assms
      by (simp add: mm_to_px_def bind_res_def fdiv_c25_4)
  qed
next
  case err
  then show ?thesis using assms by (simp add: mm_to_px_def bind_res_def fdiv_c25_4)
qed

section \<open>Unit conversion\<close>

lemma c_ge_16: "(16::rat) \<le> 3574732204225331 / 140737488355328"
  by simp

lemma div_c_abs_le: "\<bar>q / (3574732204225331 / 140737488355328)\<bar> \<le> \<bar>q :: rat\<bar> / 16"
proof -
  have "\<bar>q\<bar> / (3574732204225331 / 140737488355328) \<le> \<bar>q\<bar> / (16::rat)"
    by (intro divide_left_mono) simp_all
  then show ?thesis by (simp only: abs_divide)
qed

lemma mm_to_px_dpi_zero:
  assumes "\<bar>q\<bar> \<le> 2 powi 1024"
  shows "mm_to_px (Fin q) 0 = Inr 0"
proof -
  have "\<bar>q / (3574732204225331 / 140737488355328)\<bar> \<le> \<bar>q\<bar> / 16" by (rule div_c_abs_le)
  also have "\<dots> \<le> 2 powi 1024 / 16" using assms by (simp add: divide_right_mono)
  also have "\<dots> = 2 powi 1020" by simp
  finally have "\<bar>q / (3574732204225331 / 140737488355328)\<bar> \<le> 2 powi 1020" .
  from fl_finite(1)[OF this] have "fl (q / (3574732204225331 / 140737488355328))
      = Fin (rnd53 (q / (3574732204225331 / 140737488355328)))" by simp
  then show ?thesis
    by (simp add: mm_to_px_def bind_res_def fdiv_c25_4 int_to_float_zero fl_zero
        rhe_of_int[of 0, simplified])
qed

lemma mm_to_px_neg_dpi:
  "mm_to_px mm (- d) = (case mm_to_px mm d of Inl e \<Rightarrow> Inl e | Inr n \<Rightarrow> Inr (- n))"
proof (cases d rule: int_to_float_cases)
  case (ok r)
  then have "int_to_float (- d) = Inr (fneg (Fin r))" by (simp add: int_to_float_minus)
  then show ?thesis using ok(1)
    by (simp only: mm_to_px_def bind_res_def fdiv_c25_4 sum.case fmul_fneg_right py_round_fneg)
next
  case err
  then have "int_to_float (- d) = Inl OverflowError" by (simp add: int_to_float_minus)
  then show ?thesis using err by (simp add: mm_to_px_def bind_res_def fdiv_c25_4)
qed

text \<open>
  C2 (as the code has it). \<open>mm_to_px\<close> does not look at the sign of \<open>dpi\<close>: for a negated
  \<open>dpi\<close> it returns the negated pixel count, and it fails exactly where the conversion at
  the positive \<open>dpi\<close> fails, with the same exception of the float arithmetic; at
  \<open>dpi = 0\<close> it returns 0 for every finite \<open>mm\<close>.
\<close>

theorem mm_to_px_nonpositive_dpi:
  "mm_to_px mm (- d) = (case mm_to_px mm d of Inl e \<Rightarrow> Inl e | Inr n \<Rightarrow> Inr (- n))
   \<and> (\<forall>q. \<bar>q\<bar> \<le> 2 powi 1024 \<longrightarrow> mm_to_px (Fin q) 0 = Inr 0)"
  using mm_to_px_neg_dpi mm_to_px_dpi_zero by blast

text \<open>
  C3 (as the code has it). For every page count of magnitude below \<open>2^53\<close>, negative ones
  included, \<open>compute_spine_width_mm\<close> returns the float product of the page count and the
  thickness; it raises nothing.
\<close>

theorem compute_spine_width_mm_product:
  "\<bar>n\<bar> < 2 ^ 53 \<Longrightarrow> compute_spine_width_mm n t = Inr (fmul (Fin (of_int n)) t)"
  by (simp add: compute_spine_width_mm_def bind_res_def int_to_float_small)

lemma mm_to_px_mono:
  assumes "0 < d" "fle (Fin 0) mm1" "fle mm1 mm2" "mm_to_px mm2 d = Inr b"
  shows "\<exists>a. mm_to_px mm1 d = Inr a \<and> a \<le> b"
proof -
  obtain q2 where mm2: "mm2 = Fin q2"
    using assms by (cases mm2; cases mm1) (simp_all add: mm_to_px_NaN mm_to_px_PInf)
  obtain q1 where mm1: "mm1 = Fin q1" and q: "0 \<le> q1" "q1 \<le> q2"
    using assms(2,3) mm2 by (cases mm1) simp_all
  let ?c = "3574732204225331 / 140737488355328 :: rat"
  from assms(4) mm2 obtain x2 r v2 where x2: "fl (q2 / ?c) = Fin x2"
    and r: "int_to_float d = Inr (Fin r)" and v2: "fl (x2 * r) = Fin v2" and b: "b = round_half_even v2"
    by (auto elim: mm_to_px_Inr)
  have r1: "1 \<le> r" using assms(1) r by (rule int_to_float_pos)
  have "0 / ?c \<le> q1 / ?c" "q1 / ?c \<le> q2 / ?c" using q by (simp_all add: divide_right_mono)
  from fl_between[OF this _ x2, of 0] obtain x1 where x1: "fl (q1 / ?c) = Fin x1" "0 \<le> x1" "x1 \<le> x2"
    by (auto simp: fl_zero)
  have "0 * r \<le> x1 * r" "x1 * r \<le> x2 * r" using x1 r1 by (simp_all add: mult_right_mono)
  from fl_between[OF this _ v2, of 0] obtain v1 where v1: "fl (x1 * r) = Fin v1" "v1 \<le> v2"
    by (auto simp: fl_zero)
  have "mm_to_px mm1 d = Inr (round_half_even v1)"
    using x1(1) r v1(1) by (simp add: mm1 mm_to_px_def bind_res_def fdiv_c25_4)
  moreover have "round_half_even v1 \<le> b" unfolding b using v1(2) by (rule rhe_mono)
  ultimately show ?thesis by simp
qed

lemma mm_to_px_mono_zero:
  assumes "0 < d" "fle (Fin 0) mm1" "fle mm1 mm2" "mm_to_px mm2 d = Inr b"
  shows "(\<exists>a. mm_to_px mm1 d = Inr a \<and> a \<le> b) \<and> mm_to_px (Fin 0) d = Inr 0"
proof
  show "\<exists>a. mm_to_px mm1 d = Inr a \<and> a \<le> b" using assms by (rule mm_to_px_mono)
  obtain q2 where mm2: "mm2 = Fin q2"
    using assms by (cases mm2; cases mm1) (simp_all add: mm_to_px_NaN mm_to_px_PInf)
  with assms(4) obtain r where "int_to_float d = Inr (Fin r)" by (auto elim: mm_to_px_Inr)
  then show "mm_to_px (Fin 0) d = Inr 0" by (rule mm_to_px_zero)
qed

section \<open>Panel layout\<close>

lemma bind_res_Inr: "bind_res r f = Inr y \<longleftrightarrow> (\<exists>x. r = Inr x \<and> f x = Inr y)"
  by (cases r) (simp_all add: bind_res_def)

lemma cover_InrD:
  assumes "generate_print_wrap_cover_a8 new a = Inr L"
  shows "compute_spine_width_mm (page_count a) (thickness_per_page_mm a) = Inr (spine_mm L)"
    "full_w_mm L = fadd (fadd (fmul (width_mm a) (Fin 2)) (spine_mm L)) (fmul (Fin 2) (bleed_mm a))"
    "full_h_mm L = fadd (height_mm a) (fmul (Fin 2) (bleed_mm a))"
    "mm_to_px (full_w_mm L) (dpi a) = Inr (full_w_px L)"
    "mm_to_px (full_h_mm L) (dpi a) = Inr (full_h_px L)"
    "mm_to_px (bleed_mm a) (dpi a) = Inr (bleed_px L)"
    "mm_to_px (width_mm a) (dpi a) = Inr (page_w_px L)"
    "mm_to_px (height_mm a) (dpi a) = Inr (page_h_px L)"
    "mm_to_px (spine_mm L) (dpi a) = Inr (spine_px L)"
    "back_cover_x L = bleed_px L"
    "spine_x L = back_cover_x L + page_w_px L"
    "front_cover_x L = spine_x L + spine_px L"
    "new (full_w_px L) (full_h_px L) = Inr ()"
    "canvas_px a = Inr (full_w_px L, full_h_px L)"
proof -
  from assms obtain smm fwp fhp img back_x bp pw ph sp where
    "compute_spine_width_mm (page_count a) (thickness_per_page_mm a) = Inr smm"
    "mm_to_px (fadd (fadd (fmul (width_mm a) (Fin 2)) smm) (fmul (Fin 2) (bleed_mm a))) (dpi a) = Inr fwp"
    "mm_to_px (fadd (height_mm a) (fmul (Fin 2) (bleed_mm a))) (dpi a) = Inr fhp"
    "new fwp fhp = Inr img"
    "mm_to_px (bleed_mm a) (dpi a) = Inr back_x"
    "mm_to_px (bleed_mm a) (dpi a) = Inr bp"
    "mm_to_px (width_mm a) (dpi a) = Inr pw"
    "mm_to_px (height_mm a) (dpi a) = Inr ph"
    "mm_to_px smm (dpi a) = Inr sp"
    "L = \<lparr>spine_mm = smm,
         full_w_mm = fadd (fadd (fmul (width_mm a) (Fin 2)) smm) (fmul (Fin 2) (bleed_mm a)),
         full_h_mm = fadd (height_mm a) (fmul (Fin 2) (bleed_mm a)),
         full_w_px = fwp, full_h_px = fhp, bleed_px = bp, page_w_px = pw, page_h_px = ph,
         spine_px = sp, back_cover_x = 0 + bp, spine_x = 0 + bp + pw, front_cover_x = 0 + bp + pw + sp\<rparr>"
    unfolding generate_print_wrap_cover_a8_def Let_def bind_res_Inr by blast
  then show
    "compute_spine_width_mm (page_count a) (thickness_per_page_mm a) = Inr (spine_mm L)"
    "full_w_mm L = fadd (fadd (fmul (width_mm a) (Fin 2)) (spine_mm L)) (fmul (Fin 2) (bleed_mm a))"
    "full_h_mm L = fadd (height_mm a) (fmul (Fin 2) (bleed_mm a))"
    "mm_to_px (full_w_mm L) (dpi a) = Inr (full_w_px L)"
    "mm_to_px (full_h_mm L) (dpi a) = Inr (full_h_px L)"
    "mm_to_px (bleed_mm a) (dpi a) = Inr (bleed_px L)"
    "mm_to_px (width_mm a) (dpi a) = Inr (page_w_px L)"
    "mm_to_px (height_mm a) (dpi a) = Inr (page_h_px L)"
    "mm_to_px (spine_mm L) (dpi a) = Inr (spine_px L)"
    "back_cover_x L = bleed_px L"
    "spine_x L = back_cover_x L + page_w_px L"
    "front_cover_x L = spine_x L + spine_px L"
    "new (full_w_px L) (full_h_px L) = Inr ()"
    "canvas_px a = Inr (full_w_px L, full_h_px L)"
    by (simp_all add: canvas_px_def bind_res_def Let_def)
qed

lemma cover_InrI:
  assumes "compute_spine_width_mm (page_count a) (thickness_per_page_mm a) = Inr smm"
    "mm_to_px (fadd (fadd (fmul (width_mm a) (Fin 2)) smm) (fmul (Fin 2) (bleed_mm a))) (dpi a) = Inr fwp"
    "mm_to_px (fadd (height_mm a) (fmul (Fin 2) (bleed_mm a))) (dpi a) = Inr fhp"
    "mm_to_px (bleed_mm a) (dpi a) = Inr bp"
    "mm_to_px (width_mm a) (dpi a) = Inr pw"
    "mm_to_px (height_mm a) (dpi a) = Inr ph"
    "mm_to_px smm (dpi a) = Inr sp"
    "new fwp fhp = Inr ()"
  shows "generate_print_wrap_cover_a8 new a =
    Inr \<lparr>spine_mm = smm,
         full_w_mm = fadd (fadd (fmul (width_mm a) (Fin 2)) smm) (fmul (Fin 2) (bleed_mm a)),
         full_h_mm = fadd (height_mm a) (fmul (Fin 2) (bleed_mm a)),
         full_w_px = fwp, full_h_px = fhp, bleed_px = bp, page_w_px = pw, page_h_px = ph,
         spine_px = sp, back_cover_x = bp, spine_x = bp + pw, front_cover_x = bp + pw + sp\<rparr>"
  using assms by (simp add: generate_print_wrap_cover_a8_def bind_res_def Let_def)

lemma cover_Image_new_InlI:
  assumes "compute_spine_width_mm (page_count a) (thickness_per_page_mm a) = Inr smm"
    "mm_to_px (fadd (fadd (fmul (width_mm a) (Fin 2)) smm) (fmul (Fin 2) (bleed_mm a))) (dpi a) = Inr fwp"
    "mm_to_px (fadd (height_mm a) (fmul (Fin 2) (bleed_mm a))) (dpi a) = Inr fhp"
    "new fwp fhp = Inl e"
  shows "generate_print_wrap_cover_a8 new a = Inl e"
  using assms by (simp add: generate_print_wrap_cover_a8_def bind_res_def Let_def)

lemma canvas_px_InrI:
  assumes "compute_spine_width_mm (page_count a) (thickness_per_page_mm a) = Inr smm"
    "mm_to_px (fadd (fadd (fmul (width_mm a) (Fin 2)) smm) (fmul (Fin 2) (bleed_mm a))) (dpi a) = Inr fwp"
    "mm_to_px (fadd (height_mm a) (fmul (Fin 2) (bleed_mm a))) (dpi a) = Inr fhp"
  shows "canvas_px a = Inr (fwp, fhp)"
  using assms by (simp add: canvas_px_def bind_res_def Let_def)

lemma spine_zero_pages:
  assumes "compute_spine_width_mm 0 t = Inr s" "mm_to_px s d = Inr n"
  shows "n = 0"
proof -
  have s: "s = fmul (Fin 0) t"
    using assms(1) by (simp add: compute_spine_width_mm_def bind_res_def int_to_float_zero)
  show ?thesis
  proof (cases t)
    case (Fin b)
    then have "s = Fin 0" using s by (simp add: fl_zero)
    with assms(2) show ?thesis by (simp add: mm_to_px_zero_gen)
  qed (use s assms(2) in \<open>simp_all add: signed_inf_def mm_to_px_NaN\<close>)
qed



lemma zero_pages_layout:
  assumes "page_count a = 0" "generate_print_wrap_cover_a8 new a = Inr L"
  shows "spine_px L = 0 \<and> rect_width (spine_rect L) = 0
    \<and> front_cover_x L = back_cover_x L + page_w_px L
    \<and> rect_x0 (front_rect L) = rect_x0 (back_rect L) + rect_width (back_rect L)"
proof -
  note f = cover_InrD[OF assms(2)]
  have "spine_px L = 0" using f(1) f(9) unfolding assms(1) by (rule spine_zero_pages)
  then show ?thesis using f(11,12)
    by (simp add: back_rect_def spine_rect_def front_rect_def rect_width_def)
qed

section \<open>The A8 defaults, evaluated\<close>

lemma mm_to_px_eval:
  assumes "fl (q / (3574732204225331 / 140737488355328)) = Fin x" "int_to_float d = Inr (Fin r)"
    "fl (x * r) = Fin v" "round_half_even v = n"
  shows "mm_to_px (Fin q) d = Inr n"
  using assms by (simp add: mm_to_px_def bind_res_def fdiv_c25_4)

lemma default_thickness_val:
  "DEFAULT_PAPER_THICKNESS_MM_PER_PAGE = Fin (5764607523034235 / 2305843009213693952)"
  unfolding DEFAULT_PAPER_THICKNESS_MM_PER_PAGE_def
  using fl_certificate[where q="25 / 10000" and e="- 61" and m="5764607523034235"] by simp

lemma spine_120_val: "fl (120 * (5764607523034235 / 2305843009213693952)) = Fin (5404319552844595 / 18014398509481984)"
  using fl_certificate[where q="120 * (5764607523034235 / 2305843009213693952)" and e="- 54" and m="5404319552844595"] by simp

lemma full_w_step1: "fl (104 + (5404319552844595 / 18014398509481984)) = Fin (7339460017730355 / 70368744177664)"
  using fl_certificate[where q="104 + (5404319552844595 / 18014398509481984)" and e="- 46" and m="7339460017730355"] by simp

lemma full_w_step2: "fl ((7339460017730355 / 70368744177664) + 6) = Fin (7761672482796339 / 70368744177664)"
  using fl_certificate[where q="(7339460017730355 / 70368744177664) + 6" and e="- 46" and m="7761672482796339"] by simp

lemma px_full_w: "mm_to_px (Fin (7761672482796339 / 70368744177664)) 300 = Inr 1303"
proof (rule mm_to_px_eval)
  show "fl ((7761672482796339 / 70368744177664) / (3574732204225331 / 140737488355328)) = Fin (611155313606011 / 140737488355328)"
    using fl_certificate[where q="(7761672482796339 / 70368744177664) / (3574732204225331 / 140737488355328)" and e="- 50" and m="4889242508848088"] by simp
  show "int_to_float 300 = Inr (Fin 300)"
    using int_to_float_small[of "300"] by simp
  show "fl ((611155313606011 / 140737488355328) * 300) = Fin (5729581065056353 / 4398046511104)"
    using fl_certificate[where q="(611155313606011 / 140737488355328) * 300" and e="- 42" and m="5729581065056353"] by simp
  show "round_half_even (5729581065056353 / 4398046511104) = 1303"
    by (rule rhe_unique) simp_all
qed

lemma px_80: "mm_to_px (Fin 80) 300 = Inr 945"
proof (rule mm_to_px_eval)
  show "fl (80 / (3574732204225331 / 140737488355328)) = Fin (7092282877748813 / 2251799813685248)"
    using fl_certificate[where q="80 / (3574732204225331 / 140737488355328)" and e="- 51" and m="7092282877748813"] by simp
  show "int_to_float 300 = Inr (Fin 300)"
    using int_to_float_small[of "300"] by simp
  show "fl ((7092282877748813 / 2251799813685248) * 300) = Fin (4155634498680945 / 4398046511104)"
    using fl_certificate[where q="(7092282877748813 / 2251799813685248) * 300" and e="- 43" and m="8311268997361890"] by simp
  show "round_half_even (4155634498680945 / 4398046511104) = 945"
    by (rule rhe_unique) simp_all
qed

lemma px_3: "mm_to_px (Fin 3) 300 = Inr 35"
proof (rule mm_to_px_eval)
  show "fl (3 / (3574732204225331 / 140737488355328)) = Fin (531921215831161 / 4503599627370496)"
    using fl_certificate[where q="3 / (3574732204225331 / 140737488355328)" and e="- 56" and m="8510739453298576"] by simp
  show "int_to_float 300 = Inr (Fin 300)"
    using int_to_float_small[of "300"] by simp
  show "fl ((531921215831161 / 4503599627370496) * 300) = Fin (2493380699208567 / 70368744177664)"
    using fl_certificate[where q="(531921215831161 / 4503599627370496) * 300" and e="- 47" and m="4986761398417134"] by simp
  show "round_half_even (2493380699208567 / 70368744177664) = 35"
    by (rule rhe_unique) simp_all
qed

lemma px_52: "mm_to_px (Fin 52) 300 = Inr 614"
proof (rule mm_to_px_eval)
  show "fl (52 / (3574732204225331 / 140737488355328)) = Fin (576247983817091 / 281474976710656)"
    using fl_certificate[where q="52 / (3574732204225331 / 140737488355328)" and e="- 51" and m="4609983870536728"] by simp
  show "int_to_float 300 = Inr (Fin 300)"
    using int_to_float_small[of "300"] by simp
  show "fl ((576247983817091 / 281474976710656) * 300) = Fin (1350581212071307 / 2199023255552)"
    using fl_certificate[where q="(576247983817091 / 281474976710656) * 300" and e="- 43" and m="5402324848285228"] by simp
  show "round_half_even (1350581212071307 / 2199023255552) = 614"
    by (rule rhe_unique) simp_all
qed

lemma px_74: "mm_to_px (Fin 74) 300 = Inr 874"
proof (rule mm_to_px_eval)
  show "fl (74 / (3574732204225331 / 140737488355328)) = Fin (1640090415479413 / 562949953421312)"
    using fl_certificate[where q="74 / (3574732204225331 / 140737488355328)" and e="- 51" and m="6560361661917652"] by simp
  show "int_to_float 300 = Inr (Fin 300)"
    using int_to_float_small[of "300"] by simp
  show "fl ((1640090415479413 / 562949953421312) * 300) = Fin (1921980955639937 / 2199023255552)"
    using fl_certificate[where q="(1640090415479413 / 562949953421312) * 300" and e="- 43" and m="7687923822559748"] by simp
  show "round_half_even (1921980955639937 / 2199023255552) = 874"
    by (rule rhe_unique) simp_all
qed

lemma px_spine: "mm_to_px (Fin (5404319552844595 / 18014398509481984)) 300 = Inr 4"
proof (rule mm_to_px_eval)
  show "fl ((5404319552844595 / 18014398509481984) / (3574732204225331 / 140737488355328)) = Fin (1702147890659715 / 144115188075855872)"
    using fl_certificate[where q="(5404319552844595 / 18014398509481984) / (3574732204225331 / 140737488355328)" and e="- 59" and m="6808591562638860"] by simp
  show "int_to_float 300 = Inr (Fin 300)"
    using int_to_float_small[of "300"] by simp
  show "fl ((1702147890659715 / 144115188075855872) * 300) = Fin (3989409118733707 / 1125899906842624)"
    using fl_certificate[where q="(1702147890659715 / 144115188075855872) * 300" and e="- 51" and m="7978818237467414"] by simp
  show "round_half_even (3989409118733707 / 1125899906842624) = 4"
    by (rule rhe_unique) simp_all
qed

lemma px_110: "mm_to_px (Fin 110) 300 = Inr 1299"
proof (rule mm_to_px_eval)
  show "fl (110 / (3574732204225331 / 140737488355328)) = Fin (4875944478452309 / 1125899906842624)"
    using fl_certificate[where q="110 / (3574732204225331 / 140737488355328)" and e="- 50" and m="4875944478452309"] by simp
  show "int_to_float 300 = Inr (Fin 300)"
    using int_to_float_small[of "300"] by simp
  show "fl ((4875944478452309 / 1125899906842624) * 300) = Fin (1428499358921575 / 1099511627776)"
    using fl_certificate[where q="(4875944478452309 / 1125899906842624) * 300" and e="- 42" and m="5713997435686300"] by simp
  show "round_half_even (1428499358921575 / 1099511627776) = 1299"
    by (rule rhe_unique) simp_all
qed

lemma px_tie: "mm_to_px (Fin (9 / 2)) 127 = Inr 23"
proof (rule mm_to_px_eval)
  show "fl ((9 / 2) / (3574732204225331 / 140737488355328)) = Fin (1595763647493483 / 9007199254740992)"
    using fl_certificate[where q="(9 / 2) / (3574732204225331 / 140737488355328)" and e="- 55" and m="6383054589973932"] by simp
  show "int_to_float 127 = Inr (Fin 127)"
    using int_to_float_small[of "127"] by simp
  show "fl ((1595763647493483 / 9007199254740992) * 127) = Fin (6333186975989761 / 281474976710656)"
    using fl_certificate[where q="(1595763647493483 / 9007199254740992) * 127" and e="- 48" and m="6333186975989761"] by simp
  show "round_half_even (6333186975989761 / 281474976710656) = 23"
    by (rule rhe_unique) simp_all
qed

lemma a8_default_args_sel:
  "page_count (a8_default_args n) = n" "width_mm (a8_default_args n) = Fin 52"
  "height_mm (a8_default_args n) = Fin 74" "bleed_mm (a8_default_args n) = Fin 3"
  "dpi (a8_default_args n) = 300"
  "thickness_per_page_mm (a8_default_args n) = Fin (5764607523034235 / 2305843009213693952)"
  by (simp_all add: a8_default_args_def A8_MM_def DEFAULT_BLEED_MM_def DEFAULT_DPI_def
      default_thickness_val)

lemma fl_small_ints: "fl 104 = Fin 104" "fl 6 = Fin 6" "fl 80 = Fin 80" "fl 110 = Fin 110"
  using fl_int[of 104] fl_int[of 6] fl_int[of 80] fl_int[of 110] by simp_all

lemma cover_a8_120_gen:
  assumes "new 1303 945 = Inr ()"
  shows "generate_print_wrap_cover_a8 new (a8_default_args 120) =
    Inr \<lparr>spine_mm = Fin (5404319552844595 / 18014398509481984),
         full_w_mm = Fin (7761672482796339 / 70368744177664), full_h_mm = Fin 80,
         full_w_px = 1303, full_h_px = 945, bleed_px = 35, page_w_px = 614, page_h_px = 874,
         spine_px = 4, back_cover_x = 35, spine_x = 649, front_cover_x = 653\<rparr>"
proof -
  have sp: "compute_spine_width_mm 120 (Fin (5764607523034235 / 2305843009213693952)) = Inr (Fin (5404319552844595 / 18014398509481984))"
    using spine_120_val int_to_float_small[of 120]
    by (simp add: compute_spine_width_mm_def bind_res_def)
  have s1: "fmul (Fin 52) (Fin 2) = Fin 104" using fl_small_ints by simp
  have s2: "fadd (Fin 104) (Fin (5404319552844595 / 18014398509481984)) = Fin (7339460017730355 / 70368744177664)"
    using full_w_step1 by simp
  have s3: "fmul (Fin 2) (Fin 3) = Fin 6" using fl_small_ints by simp
  have s4: "fadd (Fin (7339460017730355 / 70368744177664)) (Fin 6) = Fin (7761672482796339 / 70368744177664)"
    using full_w_step2 by simp
  have fwv: "fadd (fadd (fmul (Fin 52) (Fin 2)) (Fin (5404319552844595 / 18014398509481984))) (fmul (Fin 2) (Fin 3))
      = Fin (7761672482796339 / 70368744177664)"
    by (simp only: s1 s2 s3 s4)
  have fhv: "fadd (Fin 74) (fmul (Fin 2) (Fin 3)) = Fin 80"
    unfolding s3 using fl_small_ints by simp
  have "generate_print_wrap_cover_a8 new (a8_default_args 120) =
    Inr \<lparr>spine_mm = Fin (5404319552844595 / 18014398509481984),
         full_w_mm = fadd (fadd (fmul (Fin 52) (Fin 2)) (Fin (5404319552844595 / 18014398509481984))) (fmul (Fin 2) (Fin 3)),
         full_h_mm = fadd (Fin 74) (fmul (Fin 2) (Fin 3)),
         full_w_px = 1303, full_h_px = 945, bleed_px = 35, page_w_px = 614, page_h_px = 874,
         spine_px = 4, back_cover_x = 35, spine_x = 35 + 614, front_cover_x = 35 + 614 + 4\<rparr>"
    using cover_InrI[of "a8_default_args 120" "Fin (5404319552844595 / 18014398509481984)" 1303 945 35 614 874 4 new]
    unfolding a8_default_args_sel fwv fhv
    using sp px_full_w px_80 px_3 px_52 px_74 px_spine assms by blast
  then show ?thesis unfolding fwv fhv by simp
qed

lemma cover_a8_120:
  "generate_print_wrap_cover_a8 Image_new_enough_memory (a8_default_args 120) =
    Inr \<lparr>spine_mm = Fin (5404319552844595 / 18014398509481984),
         full_w_mm = Fin (7761672482796339 / 70368744177664), full_h_mm = Fin 80,
         full_w_px = 1303, full_h_px = 945, bleed_px = 35, page_w_px = 614, page_h_px = 874,
         spine_px = 4, back_cover_x = 35, spine_x = 649, front_cover_x = 653\<rparr>"
  by (rule cover_a8_120_gen) (simp add: Image_new_enough_memory_def)

lemma cover_a8_0_gen:
  assumes "new 1299 945 = Inr ()"
  shows "generate_print_wrap_cover_a8 new (a8_default_args 0) =
    Inr \<lparr>spine_mm = Fin 0, full_w_mm = Fin 110, full_h_mm = Fin 80,
         full_w_px = 1299, full_h_px = 945, bleed_px = 35, page_w_px = 614, page_h_px = 874,
         spine_px = 0, back_cover_x = 35, spine_x = 649, front_cover_x = 649\<rparr>"
proof -
  have sp: "compute_spine_width_mm 0 (Fin (5764607523034235 / 2305843009213693952)) = Inr (Fin 0)"
    by (simp add: compute_spine_width_mm_def bind_res_def int_to_float_zero fl_zero)
  have s1: "fmul (Fin 52) (Fin 2) = Fin 104" using fl_small_ints by simp
  have s2: "fadd (Fin 104) (Fin 0) = Fin 104" using fl_small_ints by simp
  have s3: "fmul (Fin 2) (Fin 3) = Fin 6" using fl_small_ints by simp
  have s4: "fadd (Fin 104) (Fin 6) = Fin 110" using fl_small_ints by simp
  have fwv: "fadd (fadd (fmul (Fin 52) (Fin 2)) (Fin 0)) (fmul (Fin 2) (Fin 3)) = Fin 110"
    by (simp only: s1 s2 s3 s4)
  have fhv: "fadd (Fin 74) (fmul (Fin 2) (Fin 3)) = Fin 80"
    unfolding s3 using fl_small_ints by simp
  have z: "mm_to_px (Fin 0) 300 = Inr 0"
    using mm_to_px_zero[of 300] int_to_float_small[of 300] by simp
  have "generate_print_wrap_cover_a8 new (a8_default_args 0) =
    Inr \<lparr>spine_mm = Fin 0,
         full_w_mm = fadd (fadd (fmul (Fin 52) (Fin 2)) (Fin 0)) (fmul (Fin 2) (Fin 3)),
         full_h_mm = fadd (Fin 74) (fmul (Fin 2) (Fin 3)),
         full_w_px = 1299, full_h_px = 945, bleed_px = 35, page_w_px = 614, page_h_px = 874,
         spine_px = 0, back_cover_x = 35, spine_x = 35 + 614, front_cover_x = 35 + 614 + 0\<rparr>"
    using cover_InrI[of "a8_default_args 0" "Fin 0" 1299 945 35 614 874 0 new]
    unfolding a8_default_args_sel fwv fhv
    using sp px_110 px_80 px_3 px_52 px_74 z assms by blast
  then show ?thesis unfolding fwv fhv by simp
qed

lemma cover_a8_0:
  "generate_print_wrap_cover_a8 Image_new_enough_memory (a8_default_args 0) =
    Inr \<lparr>spine_mm = Fin 0, full_w_mm = Fin 110, full_h_mm = Fin 80,
         full_w_px = 1299, full_h_px = 945, bleed_px = 35, page_w_px = 614, page_h_px = 874,
         spine_px = 0, back_cover_x = 35, spine_x = 649, front_cover_x = 649\<rparr>"
  by (rule cover_a8_0_gen) (simp add: Image_new_enough_memory_def)

section \<open>Inputs within range\<close>

lemma fl_bounded_nonneg:
  assumes "0 \<le> q" "q \<le> 2 powi k" "- 1074 \<le> k" "k \<le> 1023"
  obtains r where "fl q = Fin r" "0 \<le> r" "r \<le> 2 powi k"
proof -
  have a: "\<bar>q\<bar> \<le> 2 powi k" using assms(1,2) by simp
  have "fl q = Fin (rnd53 q)" using a assms(3,4) by (rule fl_finite(1))
  moreover have "0 \<le> rnd53 q" using assms(1) by (rule rnd53_nonneg)
  moreover have "\<bar>rnd53 q\<bar> \<le> 2 powi k" using a assms(3) by (rule rnd53_bound)
  ultimately show ?thesis using that by simp
qed

lemma two_powi_double: "2 * (2::rat) powi k = 2 powi (k + 1)"
  by (simp add: two_powi_add)

lemma two_powi_sum_le:
  assumes "x \<le> 2 powi i" "y \<le> 2 powi j" "i \<le> k" "j \<le> k"
  shows "x + y \<le> (2::rat) powi (k + 1)"
proof -
  have "(2::rat) powi i \<le> 2 powi k" "(2::rat) powi j \<le> 2 powi k"
    using assms(3,4) by (simp_all only: two_powi_le_iff)
  then have "x + y \<le> 2 * 2 powi k" using assms(1,2) by linarith
  then show ?thesis by (simp only: two_powi_double)
qed

lemma two_powi_prod_le:
  assumes "0 \<le> x" "x \<le> 2 powi i" "0 \<le> y" "y \<le> 2 powi j"
  shows "x * y \<le> (2::rat) powi (i + j)"
proof -
  have "x * y \<le> 2 powi i * 2 powi j" using assms by (intro mult_mono) (simp_all add: two_powi_pos less_imp_le)
  then show ?thesis by (simp only: two_powi_add)
qed

lemma int_to_float_bounded_nonneg:
  assumes "0 \<le> n" "of_int n \<le> (2::rat) powi k" "0 \<le> k" "k \<le> 1023"
  obtains r where "int_to_float n = Inr (Fin r)" "0 \<le> r" "r \<le> 2 powi k"
proof -
  have "(0::rat) \<le> of_int n" using assms(1) by simp
  moreover have "- 1074 \<le> k" using assms(3) by simp
  ultimately obtain r where "fl (of_int n) = Fin r" "0 \<le> r" "r \<le> 2 powi k"
    using fl_bounded_nonneg[of "of_int n" k] assms(2,4) by blast
  then show ?thesis using that by (simp add: int_to_float_def)
qed

lemma mm_to_px_bounded_nonneg:
  assumes "0 \<le> q" "q \<le> 2 powi j" "0 \<le> d" "of_int d \<le> (2::rat) powi k"
    and "0 \<le> j" "0 \<le> k" "j + k \<le> 1023"
  obtains n where "mm_to_px (Fin q) d = Inr n" "0 \<le> n"
proof -
  let ?c = "3574732204225331 / 140737488355328 :: rat"
  have q1: "0 \<le> q / ?c" using assms(1) by simp
  have "q / ?c \<le> q / 1" using assms(1) by (intro divide_left_mono) simp_all
  then have q2: "q / ?c \<le> 2 powi j" using assms(2) by simp
  have j: "- 1074 \<le> j" "j \<le> 1023" using assms(5,6,7) by simp_all
  obtain x where x: "fl (q / ?c) = Fin x" "0 \<le> x" "x \<le> 2 powi j"
    using fl_bounded_nonneg[OF q1 q2 j] by blast
  have k: "k \<le> 1023" using assms(5,6,7) by simp
  obtain r where r: "int_to_float d = Inr (Fin r)" "0 \<le> r" "r \<le> 2 powi k"
    using int_to_float_bounded_nonneg[OF assms(3,4,6) k] by blast
  have v1: "0 \<le> x * r" using x(2) r(2) by simp
  have v2: "x * r \<le> 2 powi (j + k)" using x(2,3) r(2,3) by (rule two_powi_prod_le)
  have jk: "- 1074 \<le> j + k" using assms(5,6) by simp
  obtain v where v: "fl (x * r) = Fin v" "0 \<le> v"
    using fl_bounded_nonneg[OF v1 v2 jk assms(7)] by blast
  have "(of_int 0 :: rat) \<le> v" using v(2) by simp
  then have "0 \<le> round_half_even v" by (rule rhe_ge)
  moreover have "mm_to_px (Fin q) d = Inr (round_half_even v)"
    using x(1) r(1) v(1) by (simp add: mm_to_px_def bind_res_def fdiv_c25_4)
  ultimately show ?thesis using that by simp
qed

lemma fl_sum_bounded:
  assumes "0 \<le> x" "x \<le> 2 powi i" "0 \<le> y" "y \<le> 2 powi j" "i \<le> k" "j \<le> k"
    and "- 1074 \<le> k" "k + 1 \<le> 1023"
  obtains r where "fl (x + y) = Fin r" "0 \<le> r" "r \<le> 2 powi (k + 1)"
proof -
  have a: "0 \<le> x + y" using assms(1,3) by simp
  have b: "x + y \<le> 2 powi (k + 1)" using assms(2,4,5,6) by (rule two_powi_sum_le)
  have c: "- 1074 \<le> k + 1" using assms(7) by simp
  show ?thesis using fl_bounded_nonneg[OF a b c assms(8)] that by blast
qed

lemma fl_double_bounded:
  assumes "0 \<le> x" "x \<le> 2 powi k" "- 1074 \<le> k" "k + 1 \<le> 1023"
  obtains r where "fl (2 * x) = Fin r" "0 \<le> r" "r \<le> 2 powi (k + 1)"
proof -
  have a: "0 \<le> 2 * x" using assms(1) by simp
  have "2 * x \<le> 2 * 2 powi k" using assms(2) by simp
  then have b: "2 * x \<le> 2 powi (k + 1)" by (simp only: two_powi_double)
  have c: "- 1074 \<le> k + 1" using assms(3) by simp
  show ?thesis using fl_bounded_nonneg[OF a b c assms(4)] that by blast
qed

lemma cover_total_nonneg_gen:
  assumes k: "1 \<le> k" "k \<le> 340"
    and d: "0 < dpi a" "of_int (dpi a) \<le> (2::rat) powi k"
    and n: "0 \<le> page_count a" "of_int (page_count a) \<le> (2::rat) powi k"
    and w: "width_mm a = Fin w" "0 \<le> w" "w \<le> 2 powi k"
    and h: "height_mm a = Fin h" "0 \<le> h" "h \<le> 2 powi k"
    and b: "bleed_mm a = Fin b" "0 \<le> b" "b \<le> 2 powi k"
    and t: "thickness_per_page_mm a = Fin t" "0 \<le> t" "t \<le> 2 powi k"
  shows "\<exists>w h. canvas_px a = Inr (w, h) \<and> 0 \<le> w \<and> 0 \<le> h
    \<and> (\<forall>e. new w h = Inl e \<longrightarrow> generate_print_wrap_cover_a8 new a = Inl e)
    \<and> (new w h = Inr () \<longrightarrow>
         (\<exists>L. generate_print_wrap_cover_a8 new a = Inr L \<and> full_w_px L = w \<and> full_h_px L = h
            \<and> 0 \<le> bleed_px L \<and> 0 \<le> page_w_px L \<and> 0 \<le> page_h_px L \<and> 0 \<le> spine_px L))"
proof -
  have d0: "0 \<le> dpi a" using d(1) by simp
  have k0: "0 \<le> k" "k \<le> 1023" "- 1074 \<le> k" "k + 1 \<le> 1023" using k by simp_all
  obtain p where p: "int_to_float (page_count a) = Inr (Fin p)" "0 \<le> p" "p \<le> 2 powi k"
    using int_to_float_bounded_nonneg[OF n k0(1,2)] by blast
  have pt1: "0 \<le> p * t" using p(2) t(2) by simp
  have pt2: "p * t \<le> 2 powi (k + k)" using p(2,3) t(2,3) by (rule two_powi_prod_le)
  have kk: "- 1074 \<le> k + k" "k + k \<le> 1023" using k by simp_all
  obtain s where s: "fl (p * t) = Fin s" "0 \<le> s" "s \<le> 2 powi (k + k)"
    using fl_bounded_nonneg[OF pt1 pt2 kk] by blast
  have smm: "compute_spine_width_mm (page_count a) (thickness_per_page_mm a) = Inr (Fin s)"
    using p(1) s(1) by (simp add: compute_spine_width_mm_def bind_res_def t(1))
  obtain w2 where w2: "fl (2 * w) = Fin w2" "0 \<le> w2" "w2 \<le> 2 powi (k + 1)"
    using fl_double_bounded[OF w(2,3) k0(3,4)] by blast
  obtain b2 where b2: "fl (2 * b) = Fin b2" "0 \<le> b2" "b2 \<le> 2 powi (k + 1)"
    using fl_double_bounded[OF b(2,3) k0(3,4)] by blast
  have e1: "k + 1 \<le> k + k" "k + k \<le> k + k" "- 1074 \<le> k + k" "k + k + 1 \<le> 1023"
    using k by simp_all
  obtain a1 where a1: "fl (w2 + s) = Fin a1" "0 \<le> a1" "a1 \<le> 2 powi (k + k + 1)"
    using fl_sum_bounded[OF w2(2,3) s(2,3) e1] by blast
  have e2: "k + k + 1 \<le> k + k + 1" "k + 1 \<le> k + k + 1" "- 1074 \<le> k + k + 1"
    "k + k + 1 + 1 \<le> 1023"
    using k by simp_all
  obtain fw where fw: "fl (a1 + b2) = Fin fw" "0 \<le> fw" "fw \<le> 2 powi (k + k + 1 + 1)"
    using fl_sum_bounded[OF a1(2,3) b2(2,3) e2] by blast
  have e3: "k \<le> k + 1" "k + 1 \<le> k + 1" "- 1074 \<le> k + 1" "k + 1 + 1 \<le> 1023"
    using k by simp_all
  obtain fh where fh: "fl (h + b2) = Fin fh" "0 \<le> fh" "fh \<le> 2 powi (k + 1 + 1)"
    using fl_sum_bounded[OF h(2,3) b2(2,3) e3] by blast
  have fwv: "fadd (fadd (fmul (width_mm a) (Fin 2)) (Fin s)) (fmul (Fin 2) (bleed_mm a)) = Fin fw"
    using w2(1) b2(1) a1(1) fw(1) by (simp add: w(1) b(1) mult.commute)
  have fhv: "fadd (height_mm a) (fmul (Fin 2) (bleed_mm a)) = Fin fh"
    using b2(1) fh(1) by (simp add: h(1) b(1))
  have j1: "0 \<le> k + k + 1 + 1" "k + k + 1 + 1 + k \<le> 1023" using k by simp_all
  have j2: "0 \<le> k + 1 + 1" "k + 1 + 1 + k \<le> 1023" using k by simp_all
  have j3: "k + k \<le> 1023" "0 \<le> k + k" "k + k + k \<le> 1023" using k by simp_all
  obtain fwp where fwp: "mm_to_px (Fin fw) (dpi a) = Inr fwp" "0 \<le> fwp"
    using mm_to_px_bounded_nonneg[OF fw(2,3) d0 d(2) j1(1) k0(1) j1(2)] by blast
  obtain fhp where fhp: "mm_to_px (Fin fh) (dpi a) = Inr fhp" "0 \<le> fhp"
    using mm_to_px_bounded_nonneg[OF fh(2,3) d0 d(2) j2(1) k0(1) j2(2)] by blast
  obtain bp where bp: "mm_to_px (Fin b) (dpi a) = Inr bp" "0 \<le> bp"
    using mm_to_px_bounded_nonneg[OF b(2,3) d0 d(2) k0(1) k0(1) j3(1)] by blast
  obtain pw where pw: "mm_to_px (Fin w) (dpi a) = Inr pw" "0 \<le> pw"
    using mm_to_px_bounded_nonneg[OF w(2,3) d0 d(2) k0(1) k0(1) j3(1)] by blast
  obtain ph where ph: "mm_to_px (Fin h) (dpi a) = Inr ph" "0 \<le> ph"
    using mm_to_px_bounded_nonneg[OF h(2,3) d0 d(2) k0(1) k0(1) j3(1)] by blast
  obtain sp where sp: "mm_to_px (Fin s) (dpi a) = Inr sp" "0 \<le> sp"
    using mm_to_px_bounded_nonneg[OF s(2,3) d0 d(2) j3(2) k0(1) j3(3)] by blast
  have c1: "mm_to_px (fadd (fadd (fmul (width_mm a) (Fin 2)) (Fin s)) (fmul (Fin 2) (bleed_mm a))) (dpi a) = Inr fwp"
    unfolding fwv by (rule fwp(1))
  have c2: "mm_to_px (fadd (height_mm a) (fmul (Fin 2) (bleed_mm a))) (dpi a) = Inr fhp"
    unfolding fhv by (rule fhp(1))
  have cv: "canvas_px a = Inr (fwp, fhp)" using smm c1 c2 by (rule canvas_px_InrI)
  have er: "generate_print_wrap_cover_a8 new a = Inl e" if "new fwp fhp = Inl e" for e
    using smm c1 c2 that by (rule cover_Image_new_InlI)
  have ok: "\<exists>L. generate_print_wrap_cover_a8 new a = Inr L \<and> full_w_px L = fwp \<and> full_h_px L = fhp
            \<and> 0 \<le> bleed_px L \<and> 0 \<le> page_w_px L \<and> 0 \<le> page_h_px L \<and> 0 \<le> spine_px L"
    if nw: "new fwp fhp = Inr ()"
  proof -
    have "generate_print_wrap_cover_a8 new a =
      Inr \<lparr>spine_mm = Fin s,
           full_w_mm = fadd (fadd (fmul (width_mm a) (Fin 2)) (Fin s)) (fmul (Fin 2) (bleed_mm a)),
           full_h_mm = fadd (height_mm a) (fmul (Fin 2) (bleed_mm a)),
           full_w_px = fwp, full_h_px = fhp, bleed_px = bp, page_w_px = pw, page_h_px = ph,
           spine_px = sp, back_cover_x = bp, spine_x = bp + pw, front_cover_x = bp + pw + sp\<rparr>"
    proof (rule cover_InrI)
      show "compute_spine_width_mm (page_count a) (thickness_per_page_mm a) = Inr (Fin s)" by (rule smm)
      show "mm_to_px (fadd (fadd (fmul (width_mm a) (Fin 2)) (Fin s)) (fmul (Fin 2) (bleed_mm a))) (dpi a) = Inr fwp"
        by (rule c1)
      show "mm_to_px (fadd (height_mm a) (fmul (Fin 2) (bleed_mm a))) (dpi a) = Inr fhp"
        by (rule c2)
      show "mm_to_px (bleed_mm a) (dpi a) = Inr bp" unfolding b(1) by (rule bp(1))
      show "mm_to_px (width_mm a) (dpi a) = Inr pw" unfolding w(1) by (rule pw(1))
      show "mm_to_px (height_mm a) (dpi a) = Inr ph" unfolding h(1) by (rule ph(1))
      show "mm_to_px (Fin s) (dpi a) = Inr sp" by (rule sp(1))
      show "new fwp fhp = Inr ()" by (rule nw)
    qed
    then show ?thesis using bp(2) pw(2) ph(2) sp(2) by simp
  qed
  show ?thesis using cv fwp(2) fhp(2) er ok by blast
qed

section \<open>The A8 layouts, field by field\<close>

lemma lit_0_3: "fl (3 / 10) = Fin (5404319552844595 / 18014398509481984)"
  using fl_certificate[where q="3 / 10" and e="- 54" and m="5404319552844595"] by simp

lemma lit_110_3: "fl (1103 / 10) = Fin (7761672482796339 / 70368744177664)"
  using fl_certificate[where q="1103 / 10" and e="- 46" and m="7761672482796339"] by simp

lemma spine_minus_120_val: "fl (- 120 * (5764607523034235 / 2305843009213693952)) = Fin (- (5404319552844595 / 18014398509481984))"
  using fl_certificate[where q="- 120 * (5764607523034235 / 2305843009213693952)" and e="- 54" and m="- 5404319552844595"] by simp

lemma layout_120_fields:
  "\<not> isl (generate_print_wrap_cover_a8 Image_new_enough_memory (a8_default_args 120))"
  "full_w_px (projr (generate_print_wrap_cover_a8 Image_new_enough_memory (a8_default_args 120))) = 1303"
  "page_w_px (projr (generate_print_wrap_cover_a8 Image_new_enough_memory (a8_default_args 120))) = 614"
  "spine_px (projr (generate_print_wrap_cover_a8 Image_new_enough_memory (a8_default_args 120))) = 4"
  "bleed_px (projr (generate_print_wrap_cover_a8 Image_new_enough_memory (a8_default_args 120))) = 35"
  "front_cover_x (projr (generate_print_wrap_cover_a8 Image_new_enough_memory (a8_default_args 120))) = 653"
  "back_cover_x (projr (generate_print_wrap_cover_a8 Image_new_enough_memory (a8_default_args 120))) = 35"
  "spine_x (projr (generate_print_wrap_cover_a8 Image_new_enough_memory (a8_default_args 120))) = 649"
  "page_h_px (projr (generate_print_wrap_cover_a8 Image_new_enough_memory (a8_default_args 120))) = 874"
  by (simp_all add: cover_a8_120)

lemma layout_0_fields:
  "\<not> isl (generate_print_wrap_cover_a8 Image_new_enough_memory (a8_default_args 0))"
  "spine_px (projr (generate_print_wrap_cover_a8 Image_new_enough_memory (a8_default_args 0))) = 0"
  "spine_x (projr (generate_print_wrap_cover_a8 Image_new_enough_memory (a8_default_args 0))) = 649"
  "bleed_px (projr (generate_print_wrap_cover_a8 Image_new_enough_memory (a8_default_args 0))) = 35"
  "page_h_px (projr (generate_print_wrap_cover_a8 Image_new_enough_memory (a8_default_args 0))) = 874"
  by (simp_all add: cover_a8_0)

section \<open>Text placement on the front cover\<close>












lemma fl_abs_bounded:
  assumes "\<bar>q\<bar> \<le> 2 powi k" "- 1074 \<le> k" "k \<le> 1023"
  obtains r where "fl q = Fin r" "\<bar>r\<bar> \<le> 2 powi k"
  using fl_finite[OF assms] that by blast








section \<open>Accuracy of the conversion\<close>

lemma fl_Fin_rnd53: "fl q = Fin r \<Longrightarrow> r = rnd53 q"
  by (cases q rule: fl_cases) simp_all

lemma flog2_le:
  assumes "0 < q" "q \<le> 2 powi k"
  shows "flog2 q \<le> k"
proof -
  have "(2::rat) powi flog2 q \<le> 2 powi k" using flog2_lower[OF assms(1)] assms(2) by linarith
  then show ?thesis by (simp only: two_powi_le_iff)
qed

lemma fl_abs_error:
  assumes "fl q = Fin r" "\<bar>q\<bar> \<le> 2 powi k" "- 1022 \<le> k"
  shows "\<bar>r - q\<bar> \<le> 2 powi (k - 53)"
proof (cases "q = 0")
  case True
  then have "r = 0" using assms(1) by (simp add: fl_zero)
  then show ?thesis using True two_powi_pos[of "k - 53"] by simp
next
  case False
  then have "0 < \<bar>q\<bar>" by simp
  then have "flog2 \<bar>q\<bar> \<le> k" using assms(2) by (rule flog2_le)
  then have "ulp_exp q \<le> k - 52" using assms(3) by (simp add: ulp_exp_def)
  then have "ulp_exp q - 1 \<le> k - 53" by simp
  then have "(2::rat) powi (ulp_exp q - 1) \<le> 2 powi (k - 53)" by (simp only: two_powi_le_iff)
  moreover have "2 powi ulp_exp q / 2 = (2::rat) powi (ulp_exp q - 1)"
    using two_powi_add[of "ulp_exp q - 1" 1] by simp
  moreover have "\<bar>rnd53 q - q\<bar> \<le> 2 powi ulp_exp q / 2" by (rule rnd53_error)
  moreover have "r = rnd53 q" using assms(1) by (rule fl_Fin_rnd53)
  ultimately show ?thesis by simp
qed

lemma fl_abs_value:
  assumes "fl q = Fin r" "\<bar>q\<bar> \<le> 2 powi k" "- 1074 \<le> k"
  shows "\<bar>r\<bar> \<le> 2 powi k"
  using rnd53_bound[OF assms(2,3)] fl_Fin_rnd53[OF assms(1)] by simp

text \<open>The float value that \<open>mm_to_px\<close> rounds, against the exact quotient by the float 25.4.\<close>

lemma px_float_error:
  assumes x: "fl (q / (3574732204225331 / 140737488355328)) = Fin x"
    and r: "int_to_float d = Inr (Fin r)"
    and v: "fl (x * r) = Fin v"
    and q: "\<bar>q\<bar> \<le> 2 powi j" and j: "0 \<le> j" "j \<le> 40"
    and d: "0 \<le> d" "d \<le> 2 ^ 20"
  shows "\<bar>v - q * of_int d / (3574732204225331 / 140737488355328)\<bar> \<le> 2 powi (j - 36)"
proof -
  let ?c = "3574732204225331 / 140737488355328 :: rat"
  have d53: "\<bar>d\<bar> < 2 ^ 53" using d by simp
  have rd: "r = of_int d" using r int_to_float_small[OF d53] by simp
  have dr: "0 \<le> r" "r \<le> 2 powi 20" using d by (simp_all add: rd)
  have "\<bar>q / ?c\<bar> \<le> \<bar>q\<bar> / 16" by (rule div_c_abs_le)
  also have "\<dots> \<le> 2 powi j / 16" using q by (simp add: divide_right_mono)
  also have "\<dots> = 2 powi (j - 4)" using two_powi_add[of "j - 4" 4] by simp
  finally have qc: "\<bar>q / ?c\<bar> \<le> 2 powi (j - 4)" .
  have j4: "- 1022 \<le> j - 4" "- 1074 \<le> j - 4" using j by simp_all
  have ex: "\<bar>x - q / ?c\<bar> \<le> 2 powi (j - 4 - 53)" using x qc j4(1) by (rule fl_abs_error)
  have ax: "\<bar>x\<bar> \<le> 2 powi (j - 4)" using x qc j4(2) by (rule fl_abs_value)
  have "\<bar>x\<bar> * \<bar>r\<bar> \<le> 2 powi (j - 4) * 2 powi 20"
    using ax dr by (intro mult_mono) (simp_all add: two_powi_pos less_imp_le)
  then have xr: "\<bar>x * r\<bar> \<le> 2 powi (j - 4 + 20)" by (simp only: abs_mult two_powi_add)
  have j16: "- 1022 \<le> j - 4 + 20" using j by simp
  have ev: "\<bar>v - x * r\<bar> \<le> 2 powi (j - 4 + 20 - 53)" using v xr j16 by (rule fl_abs_error)
  have "\<bar>x - q / ?c\<bar> * \<bar>r\<bar> \<le> 2 powi (j - 4 - 53) * 2 powi 20"
    using ex dr by (intro mult_mono) (simp_all add: two_powi_pos less_imp_le)
  then have "\<bar>(x - q / ?c) * r\<bar> \<le> 2 powi (j - 4 - 53 + 20)" by (simp only: abs_mult two_powi_add)
  moreover have "(x - q / ?c) * r = x * r - q * of_int d / ?c" by (simp add: rd algebra_simps)
  ultimately have e2: "\<bar>x * r - q * of_int d / ?c\<bar> \<le> 2 powi (j - 37)" by simp
  have e1: "\<bar>v - x * r\<bar> \<le> 2 powi (j - 37)" using ev by simp
  have "2 powi (j - 37) + 2 powi (j - 37) = (2::rat) powi (j - 36)"
    using two_powi_double[of "j - 37"] by simp
  then show ?thesis using e1 e2 by linarith
qed

lemma px_result_error:
  assumes "mm_to_px (Fin q) d = Inr n" "\<bar>q\<bar> \<le> 2 powi j" "0 \<le> j" "j \<le> 40" "0 \<le> d" "d \<le> 2 ^ 20"
  shows "\<bar>of_int n - q * of_int d / (3574732204225331 / 140737488355328)\<bar> \<le> 1 / 2 + 2 powi (j - 36)"
proof -
  from assms(1) obtain x r v where f: "fl (q / (3574732204225331 / 140737488355328)) = Fin x"
    "int_to_float d = Inr (Fin r)" "fl (x * r) = Fin v" "n = round_half_even v"
    by (rule mm_to_px_Inr)
  have "\<bar>v - q * of_int d / (3574732204225331 / 140737488355328)\<bar> \<le> 2 powi (j - 36)"
    using f(1,2,3) assms(2-6) by (rule px_float_error)
  moreover have "\<bar>of_int n - v\<bar> \<le> 1 / 2" unfolding f(4) by (rule rhe_error)
  ultimately show ?thesis by linarith
qed

lemma float_25_4_close:
  assumes "\<bar>q\<bar> \<le> 2 ^ 20" "0 \<le> d" "d \<le> 2 ^ 20"
  shows "\<bar>q * of_int d / (3574732204225331 / 140737488355328) - q * of_int d / (254 / 10)\<bar>
    \<le> 1 / (2::rat) ^ 18"
proof -
  let ?t = "1 / (127 * 3574732204225331) :: rat"
  have e: "q * of_int d / (3574732204225331 / 140737488355328) - q * of_int d / (254 / 10)
      = q * of_int d * ?t"
    by (simp add: field_simps)
  have "(of_int d :: rat) \<le> of_int (2 ^ 20)" using assms(3) by (simp only: of_int_le_iff)
  then have dd: "\<bar>of_int d :: rat\<bar> \<le> 2 ^ 20" using assms(2) by simp
  have "\<bar>q\<bar> * \<bar>of_int d :: rat\<bar> \<le> 2 ^ 20 * 2 ^ 20"
    using assms(1) dd by (intro mult_mono) simp_all
  then have "\<bar>q * of_int d\<bar> \<le> 2 ^ 20 * 2 ^ 20" by (simp only: abs_mult)
  then have "\<bar>q * of_int d\<bar> * ?t \<le> 2 ^ 20 * 2 ^ 20 * ?t"
    by (intro mult_right_mono) simp_all
  also have "\<dots> \<le> 1 / 2 ^ 18" by simp
  finally have "\<bar>q * of_int d * ?t\<bar> \<le> 1 / 2 ^ 18" by (simp add: abs_mult)
  then show ?thesis by (simp only: e)
qed

lemma px_result_accuracy:
  assumes "mm_to_px (Fin q) d = Inr n" "\<bar>q\<bar> \<le> 2 ^ 20" "0 \<le> d" "d \<le> 2 ^ 20"
  shows "\<bar>of_int n - q * of_int d / (254 / 10)\<bar> \<le> 1 / 2 + 1 / 2 ^ 15"
proof -
  have q: "\<bar>q\<bar> \<le> 2 powi 20" using assms(2) by simp
  have j: "(0::int) \<le> 20" "(20::int) \<le> 40" by simp_all
  have "\<bar>of_int n - q * of_int d / (3574732204225331 / 140737488355328)\<bar> \<le> 1 / 2 + 2 powi (20 - 36)"
    using assms(1) q j assms(3,4) by (rule px_result_error)
  then have a: "\<bar>of_int n - q * of_int d / (3574732204225331 / 140737488355328)\<bar> \<le> 1 / 2 + 1 / 2 ^ 16"
    by (simp add: power_int_minus inverse_eq_divide)
  have b: "\<bar>q * of_int d / (3574732204225331 / 140737488355328) - q * of_int d / (254 / 10)\<bar>
    \<le> 1 / (2::rat) ^ 18"
    using assms(2,3,4) by (rule float_25_4_close)
  have "(1 / 2 ^ 16 + 1 / 2 ^ 18 :: rat) \<le> 1 / 2 ^ 15" by simp
  then show ?thesis using a b by linarith
qed

lemma fl_step:
  assumes "\<bar>q\<bar> \<le> 2 powi k" "- 1022 \<le> k" "k \<le> 1023"
  obtains r where "fl q = Fin r" "\<bar>r\<bar> \<le> 2 powi k" "\<bar>r - q\<bar> \<le> 2 powi (k - 53)"
proof -
  have k: "- 1074 \<le> k" using assms(2) by simp
  obtain r where r: "fl q = Fin r" "\<bar>r\<bar> \<le> 2 powi k"
    using fl_abs_bounded[OF assms(1) k assms(3)] by blast
  have "\<bar>r - q\<bar> \<le> 2 powi (k - 53)" using r(1) assms(1,2) by (rule fl_abs_error)
  then show ?thesis using r that by blast
qed

lemma full_width_error:
  assumes "\<bar>w\<bar> \<le> 2 ^ 20" "\<bar>s\<bar> \<le> 2 ^ 20" "\<bar>b\<bar> \<le> 2 ^ 20"
  obtains f where "fadd (fadd (fmul (Fin w) (Fin 2)) (Fin s)) (fmul (Fin 2) (Fin b)) = Fin f"
    "\<bar>f\<bar> \<le> 2 ^ 23" "\<bar>f - (2 * w + s + 2 * b)\<bar> \<le> 1 / 2 ^ 29"
proof -
  have "\<bar>w * 2\<bar> \<le> 2 powi 21" using assms(1) by simp
  then obtain w2 where w2: "fl (w * 2) = Fin w2" "\<bar>w2\<bar> \<le> 2 powi 21" "\<bar>w2 - w * 2\<bar> \<le> 2 powi (21 - 53)"
    by (rule fl_step) simp_all
  have "\<bar>2 * b\<bar> \<le> 2 powi 21" using assms(3) by simp
  then obtain b2 where b2: "fl (2 * b) = Fin b2" "\<bar>b2\<bar> \<le> 2 powi 21" "\<bar>b2 - 2 * b\<bar> \<le> 2 powi (21 - 53)"
    by (rule fl_step) simp_all
  have "\<bar>w2 + s\<bar> \<le> 2 powi 22" using w2(2) assms(2) by simp
  then obtain a1 where a1: "fl (w2 + s) = Fin a1" "\<bar>a1\<bar> \<le> 2 powi 22" "\<bar>a1 - (w2 + s)\<bar> \<le> 2 powi (22 - 53)"
    by (rule fl_step) simp_all
  have "\<bar>a1 + b2\<bar> \<le> 2 powi 23" using a1(2) b2(2) by simp
  then obtain f where f: "fl (a1 + b2) = Fin f" "\<bar>f\<bar> \<le> 2 powi 23" "\<bar>f - (a1 + b2)\<bar> \<le> 2 powi (23 - 53)"
    by (rule fl_step) simp_all
  have e: "\<bar>w2 - w * 2\<bar> \<le> 1 / 2 ^ 32" "\<bar>b2 - 2 * b\<bar> \<le> 1 / 2 ^ 32"
    "\<bar>a1 - (w2 + s)\<bar> \<le> 1 / 2 ^ 31" "\<bar>f - (a1 + b2)\<bar> \<le> 1 / 2 ^ 30"
    using w2(3) b2(3) a1(3) f(3) by (simp_all add: power_int_minus inverse_eq_divide)
  have "(1 / 2 ^ 32 + 1 / 2 ^ 32 + 1 / 2 ^ 31 + 1 / 2 ^ 30 :: rat) = 1 / 2 ^ 29" by simp
  then have "\<bar>f - (2 * w + s + 2 * b)\<bar> \<le> 1 / 2 ^ 29" using e by linarith
  moreover have "fadd (fadd (fmul (Fin w) (Fin 2)) (Fin s)) (fmul (Fin 2) (Fin b)) = Fin f"
    by (simp add: w2(1) b2(1) a1(1) f(1))
  moreover have "\<bar>f\<bar> \<le> 2 ^ 23" using f(2) by simp
  ultimately show ?thesis using that by blast
qed

section \<open>Totality within range and the drift of the canvas width\<close>

lemma float_within_FinE:
  assumes "float_within lo hi x"
  obtains q where "x = Fin q" "lo \<le> q" "q \<le> hi"
  using assms by (cases x) (simp_all add: float_within_def)

lemma cover_in_range_total:
  assumes "cover_spec_in_range a"
  shows "\<exists>w h. canvas_px a = Inr (w, h) \<and> 0 \<le> w \<and> 0 \<le> h
    \<and> (\<forall>e. new w h = Inl e \<longrightarrow> generate_print_wrap_cover_a8 new a = Inl e)
    \<and> (new w h = Inr () \<longrightarrow>
         (\<exists>L. generate_print_wrap_cover_a8 new a = Inr L \<and> full_w_px L = w \<and> full_h_px L = h
            \<and> 0 \<le> bleed_px L \<and> 0 \<le> page_w_px L \<and> 0 \<le> page_h_px L \<and> 0 \<le> spine_px L))"
proof -
  have r: "0 < dpi a" "of_int (dpi a) \<le> (2::rat) powi 200"
    "0 \<le> page_count a" "of_int (page_count a) \<le> (2::rat) powi 200"
    "float_within 0 (2 powi 200) (width_mm a)" "float_within 0 (2 powi 200) (height_mm a)"
    "float_within 0 (2 powi 200) (bleed_mm a)" "float_within 0 (2 powi 200) (thickness_per_page_mm a)"
    using assms unfolding cover_spec_in_range_def by blast+
  obtain w where w: "width_mm a = Fin w" "0 \<le> w" "w \<le> 2 powi 200"
    using r(5) by (rule float_within_FinE)
  obtain h where h: "height_mm a = Fin h" "0 \<le> h" "h \<le> 2 powi 200"
    using r(6) by (rule float_within_FinE)
  obtain b where b: "bleed_mm a = Fin b" "0 \<le> b" "b \<le> 2 powi 200"
    using r(7) by (rule float_within_FinE)
  obtain t where t: "thickness_per_page_mm a = Fin t" "0 \<le> t" "t \<le> 2 powi 200"
    using r(8) by (rule float_within_FinE)
  have k: "(1::int) \<le> 200" "(200::int) \<le> 340" by simp_all
  show ?thesis by (rule cover_total_nonneg_gen[OF k r(1-4) w h b t])
qed

lemma a8_default_in_range: "cover_spec_in_range (a8_default_args 0)" "cover_spec_in_range (a8_default_args 120)"
proof -
  have p: "(1::rat) \<le> 2 powi 200" using two_powi_le_iff[of 0 200] by simp
  have "(2::rat) powi 9 \<le> 2 powi 200" by (simp only: two_powi_le_iff)
  then have q: "(512::rat) \<le> 2 powi 200" by simp
  have f: "float_within 0 (2 powi 200) (Fin 52)" "float_within 0 (2 powi 200) (Fin 74)"
    "float_within 0 (2 powi 200) (Fin 3)"
    "float_within 0 (2 powi 200) (Fin (5764607523034235 / 2305843009213693952))"
    "(300::rat) \<le> 2 powi 200" "(120::rat) \<le> 2 powi 200" "(0::rat) \<le> 2 powi 200"
    unfolding float_within_def using p q by simp_all
  show "cover_spec_in_range (a8_default_args 0)" "cover_spec_in_range (a8_default_args 120)"
    unfolding cover_spec_in_range_def a8_default_args_sel using f by simp_all
qed

lemma canvas_drift:
  assumes g: "generate_print_wrap_cover_a8 new a = Inr L"
    and d: "0 \<le> dpi a" "dpi a \<le> 2 ^ 20"
    and n: "\<bar>page_count a\<bar> \<le> 2 ^ 10"
    and w: "float_within (- (2 ^ 20)) (2 ^ 20) (width_mm a)"
    and b: "float_within (- (2 ^ 20)) (2 ^ 20) (bleed_mm a)"
    and t: "float_within (- (2 ^ 10)) (2 ^ 10) (thickness_per_page_mm a)"
  shows "\<bar>full_w_px L - (2 * page_w_px L + spine_px L + 2 * bleed_px L)\<bar> \<le> 3"
proof -
  let ?c = "3574732204225331 / 140737488355328 :: rat"
  let ?D = "of_int (dpi a) :: rat"
  note f = cover_InrD[OF g]
  obtain wv where wv: "width_mm a = Fin wv" "\<bar>wv\<bar> \<le> 2 ^ 20"
    using w by (elim float_within_FinE) simp
  obtain bv where bv: "bleed_mm a = Fin bv" "\<bar>bv\<bar> \<le> 2 ^ 20"
    using b by (elim float_within_FinE) simp
  obtain tv where tv: "thickness_per_page_mm a = Fin tv" "\<bar>tv\<bar> \<le> 2 ^ 10"
    using t by (elim float_within_FinE) simp
  have n53: "\<bar>page_count a\<bar> < 2 ^ 53" using n by simp
  have "(of_int \<bar>page_count a\<bar> :: rat) \<le> of_int (2 ^ 10)" using n by (simp only: of_int_le_iff)
  then have na: "\<bar>of_int (page_count a) :: rat\<bar> \<le> 2 ^ 10" by simp
  have "\<bar>of_int (page_count a) :: rat\<bar> * \<bar>tv\<bar> \<le> 2 ^ 10 * 2 ^ 10"
    using na tv(2) by (intro mult_mono) simp_all
  then have "\<bar>of_int (page_count a) * tv\<bar> \<le> 2 powi 20" by (simp add: abs_mult)
  then obtain sv where sv: "fl (of_int (page_count a) * tv) = Fin sv" "\<bar>sv\<bar> \<le> 2 powi 20"
    by (rule fl_abs_bounded) simp_all
  have "compute_spine_width_mm (page_count a) (thickness_per_page_mm a) = Inr (Fin sv)"
    using sv(1) by (simp add: compute_spine_width_mm_def bind_res_def int_to_float_small[OF n53] tv(1))
  then have s: "spine_mm L = Fin sv" using f(1) by simp
  have sa: "\<bar>sv\<bar> \<le> 2 ^ 20" using sv(2) by simp
  obtain F where F: "fadd (fadd (fmul (Fin wv) (Fin 2)) (Fin sv)) (fmul (Fin 2) (Fin bv)) = Fin F"
    "\<bar>F\<bar> \<le> 2 ^ 23" "\<bar>F - (2 * wv + sv + 2 * bv)\<bar> \<le> 1 / 2 ^ 29"
    using full_width_error[OF wv(2) sa bv(2)] by blast
  have fw: "full_w_mm L = Fin F" using f(2) F(1) by (simp add: wv(1) bv(1) s)
  have j: "(0::int) \<le> 20" "(20::int) \<le> 40" "(0::int) \<le> 23" "(23::int) \<le> 40" by simp_all
  have q20: "\<bar>wv\<bar> \<le> 2 powi 20" "\<bar>bv\<bar> \<le> 2 powi 20" "\<bar>sv\<bar> \<le> 2 powi 20" "\<bar>F\<bar> \<le> 2 powi 23"
    using wv(2) bv(2) sa F(2) by simp_all
  have "\<bar>of_int (full_w_px L) - F * ?D / ?c\<bar> \<le> 1 / 2 + 2 powi (23 - 36)"
    using f(4)[unfolded fw] q20(4) j(3,4) d by (rule px_result_error)
  then have e0: "\<bar>of_int (full_w_px L) - F * ?D / ?c\<bar> \<le> 1 / 2 + 1 / 2 ^ 13"
    by (simp add: power_int_minus inverse_eq_divide)
  have "\<bar>of_int (page_w_px L) - wv * ?D / ?c\<bar> \<le> 1 / 2 + 2 powi (20 - 36)"
    using f(7)[unfolded wv(1)] q20(1) j(1,2) d by (rule px_result_error)
  then have e1: "\<bar>of_int (page_w_px L) - wv * ?D / ?c\<bar> \<le> 1 / 2 + 1 / 2 ^ 16"
    by (simp add: power_int_minus inverse_eq_divide)
  have "\<bar>of_int (bleed_px L) - bv * ?D / ?c\<bar> \<le> 1 / 2 + 2 powi (20 - 36)"
    using f(6)[unfolded bv(1)] q20(2) j(1,2) d by (rule px_result_error)
  then have e2: "\<bar>of_int (bleed_px L) - bv * ?D / ?c\<bar> \<le> 1 / 2 + 1 / 2 ^ 16"
    by (simp add: power_int_minus inverse_eq_divide)
  have "\<bar>of_int (spine_px L) - sv * ?D / ?c\<bar> \<le> 1 / 2 + 2 powi (20 - 36)"
    using f(9)[unfolded s] q20(3) j(1,2) d by (rule px_result_error)
  then have e3: "\<bar>of_int (spine_px L) - sv * ?D / ?c\<bar> \<le> 1 / 2 + 1 / 2 ^ 16"
    by (simp add: power_int_minus inverse_eq_divide)
  have "(?D :: rat) \<le> of_int (2 ^ 20)" using d(2) by (simp only: of_int_le_iff)
  then have D: "0 \<le> ?D" "?D \<le> 2 ^ 20" using d(1) by simp_all
  have "?D / ?c \<le> ?D / 16" using D(1) by (intro divide_left_mono) simp_all
  then have Dc: "0 \<le> ?D / ?c" "?D / ?c \<le> 2 ^ 16" using D by simp_all
  have alg: "(F - (2 * wv + sv + 2 * bv)) * (?D / ?c)
      = F * ?D / ?c - (2 * (wv * ?D / ?c) + sv * ?D / ?c + 2 * (bv * ?D / ?c))"
  proof -
    define K where "K = ?D / ?c"
    have "(F - (2 * wv + sv + 2 * bv)) * K = F * K - (2 * (wv * K) + sv * K + 2 * (bv * K))"
      by (simp add: algebra_simps)
    then show ?thesis unfolding K_def by (simp only: times_divide_eq_right)
  qed
  have "\<bar>F - (2 * wv + sv + 2 * bv)\<bar> * \<bar>?D / ?c\<bar> \<le> 1 / 2 ^ 29 * 2 ^ 16"
    using F(3) Dc by (intro mult_mono) simp_all
  also have "(1 / 2 ^ 29 * 2 ^ 16 :: rat) = 1 / 2 ^ 13" by simp
  finally have "\<bar>(F - (2 * wv + sv + 2 * bv)) * (?D / ?c)\<bar> \<le> 1 / 2 ^ 13"
    by (simp only: abs_mult)
  then have e4: "\<bar>F * ?D / ?c - (2 * (wv * ?D / ?c) + sv * ?D / ?c + 2 * (bv * ?D / ?c))\<bar>
      \<le> 1 / 2 ^ 13" by (simp only: alg)
  have small: "(1 / 2 ^ 13 + 1 / 2 ^ 13 + 5 * (1 / 2 ^ 16) :: rat) < 1" by simp
  have "\<bar>(of_int (full_w_px L) :: rat)
      - (2 * of_int (page_w_px L) + of_int (spine_px L) + 2 * of_int (bleed_px L))\<bar> < 4"
    using e0 e1 e2 e3 e4 small by linarith
  then have "\<bar>of_int (full_w_px L - (2 * page_w_px L + spine_px L + 2 * bleed_px L)) :: rat\<bar> < of_int 4"
    by simp
  then have "\<bar>full_w_px L - (2 * page_w_px L + spine_px L + 2 * bleed_px L)\<bar> < 4"
    by (simp only: of_int_abs[symmetric] of_int_less_iff)
  then show ?thesis by simp
qed

section \<open>A trim width below one pixel\<close>

lemma thin_double_val: "fl (1 / 16) = Fin (1 / 16)"
  using fl_certificate[where q="1 / 16" and e="- 56" and m="4503599627370496"] by simp

lemma thin_full_w_step1: "fl (1 / 16 + (5404319552844595 / 18014398509481984)) = Fin (6530219459687219 / 18014398509481984)"
  using fl_certificate[where q="1 / 16 + (5404319552844595 / 18014398509481984)" and e="- 54" and m="6530219459687219"] by simp

lemma thin_full_w_step2: "fl ((6530219459687219 / 18014398509481984) + 6) = Fin (7163538157286195 / 1125899906842624)"
  using fl_certificate[where q="(6530219459687219 / 18014398509481984) + 6" and e="- 50" and m="7163538157286195"] by simp

lemma px_thin_full_w: "mm_to_px (Fin (7163538157286195 / 1125899906842624)) 300 = Inr 75"
proof (rule mm_to_px_eval)
  show "fl ((7163538157286195 / 1125899906842624) / (3574732204225331 / 140737488355328)) = Fin (2256232490483841 / 9007199254740992)"
    using fl_certificate[where q="(7163538157286195 / 1125899906842624) / (3574732204225331 / 140737488355328)" and e="- 54" and m="4512464980967682"] by simp
  show "int_to_float 300 = Inr (Fin 300)"
    using int_to_float_small[of "300"] by simp
  show "fl ((2256232490483841 / 9007199254740992) * 300) = Fin (2644022449785751 / 35184372088832)"
    using fl_certificate[where q="(2256232490483841 / 9007199254740992) * 300" and e="- 46" and m="5288044899571502"] by simp
  show "round_half_even (2644022449785751 / 35184372088832) = 75"
    by (rule rhe_unique) simp_all
qed

lemma px_thin_w: "mm_to_px (Fin (1 / 32)) 300 = Inr 0"
proof (rule mm_to_px_eval)
  show "fl ((1 / 32) / (3574732204225331 / 140737488355328)) = Fin (2836913151099525 / 2305843009213693952)"
    using fl_certificate[where q="(1 / 32) / (3574732204225331 / 140737488355328)" and e="- 62" and m="5673826302199050"] by simp
  show "int_to_float 300 = Inr (Fin 300)"
    using int_to_float_small[of "300"] by simp
  show "fl ((2836913151099525 / 2305843009213693952) * 300) = Fin (831126899736189 / 2251799813685248)"
    using fl_certificate[where q="(2836913151099525 / 2305843009213693952) * 300" and e="- 54" and m="6649015197889512"] by simp
  show "round_half_even (831126899736189 / 2251799813685248) = 0"
    by (rule rhe_unique) simp_all
qed

lemma thin_args_sel:
  "page_count ((a8_default_args 120)\<lparr>width_mm := Fin (1 / 32)\<rparr>) = 120"
  "width_mm ((a8_default_args 120)\<lparr>width_mm := Fin (1 / 32)\<rparr>) = Fin (1 / 32)"
  "height_mm ((a8_default_args 120)\<lparr>width_mm := Fin (1 / 32)\<rparr>) = Fin 74"
  "bleed_mm ((a8_default_args 120)\<lparr>width_mm := Fin (1 / 32)\<rparr>) = Fin 3"
  "dpi ((a8_default_args 120)\<lparr>width_mm := Fin (1 / 32)\<rparr>) = 300"
  "thickness_per_page_mm ((a8_default_args 120)\<lparr>width_mm := Fin (1 / 32)\<rparr>)
     = Fin (5764607523034235 / 2305843009213693952)"
  by (simp_all add: a8_default_args_sel)

lemma cover_thin_gen:
  assumes "new 75 945 = Inr ()"
  shows "generate_print_wrap_cover_a8 new ((a8_default_args 120)\<lparr>width_mm := Fin (1 / 32)\<rparr>) =
    Inr \<lparr>spine_mm = Fin (5404319552844595 / 18014398509481984),
         full_w_mm = Fin (7163538157286195 / 1125899906842624), full_h_mm = Fin 80,
         full_w_px = 75, full_h_px = 945, bleed_px = 35, page_w_px = 0, page_h_px = 874,
         spine_px = 4, back_cover_x = 35, spine_x = 35, front_cover_x = 39\<rparr>"
proof -
  let ?a = "(a8_default_args 120)\<lparr>width_mm := Fin (1 / 32)\<rparr>"
  have sp: "compute_spine_width_mm 120 (Fin (5764607523034235 / 2305843009213693952)) = Inr (Fin (5404319552844595 / 18014398509481984))"
    using spine_120_val int_to_float_small[of 120]
    by (simp add: compute_spine_width_mm_def bind_res_def)
  have s1: "fmul (Fin (1 / 32)) (Fin 2) = Fin (1 / 16)" using thin_double_val by simp
  have s2: "fadd (Fin (1 / 16)) (Fin (5404319552844595 / 18014398509481984)) = Fin (6530219459687219 / 18014398509481984)"
    using thin_full_w_step1 by simp
  have s3: "fmul (Fin 2) (Fin 3) = Fin 6" using fl_small_ints by simp
  have s4: "fadd (Fin (6530219459687219 / 18014398509481984)) (Fin 6) = Fin (7163538157286195 / 1125899906842624)"
    using thin_full_w_step2 by simp
  have fwv: "fadd (fadd (fmul (Fin (1 / 32)) (Fin 2)) (Fin (5404319552844595 / 18014398509481984))) (fmul (Fin 2) (Fin 3))
      = Fin (7163538157286195 / 1125899906842624)"
    by (simp only: s1 s2 s3 s4)
  have fhv: "fadd (Fin 74) (fmul (Fin 2) (Fin 3)) = Fin 80"
    unfolding s3 using fl_small_ints by simp
  have "generate_print_wrap_cover_a8 new ?a =
    Inr \<lparr>spine_mm = Fin (5404319552844595 / 18014398509481984),
         full_w_mm = fadd (fadd (fmul (Fin (1 / 32)) (Fin 2)) (Fin (5404319552844595 / 18014398509481984))) (fmul (Fin 2) (Fin 3)),
         full_h_mm = fadd (Fin 74) (fmul (Fin 2) (Fin 3)),
         full_w_px = 75, full_h_px = 945, bleed_px = 35, page_w_px = 0, page_h_px = 874,
         spine_px = 4, back_cover_x = 35, spine_x = 35 + 0, front_cover_x = 35 + 0 + 4\<rparr>"
    using cover_InrI[of ?a "Fin (5404319552844595 / 18014398509481984)" 75 945 35 0 874 4 new]
    unfolding thin_args_sel fwv fhv
    using sp px_thin_full_w px_80 px_3 px_thin_w px_74 px_spine assms by blast
  then show ?thesis unfolding fwv fhv by simp
qed

lemma cover_thin:
  "generate_print_wrap_cover_a8 Image_new_enough_memory ((a8_default_args 120)\<lparr>width_mm := Fin (1 / 32)\<rparr>) =
    Inr \<lparr>spine_mm = Fin (5404319552844595 / 18014398509481984),
         full_w_mm = Fin (7163538157286195 / 1125899906842624), full_h_mm = Fin 80,
         full_w_px = 75, full_h_px = 945, bleed_px = 35, page_w_px = 0, page_h_px = 874,
         spine_px = 4, back_cover_x = 35, spine_x = 35, front_cover_x = 39\<rparr>"
  by (rule cover_thin_gen) (simp add: Image_new_enough_memory_def)

lemma thin_in_range: "cover_spec_in_range ((a8_default_args 120)\<lparr>width_mm := Fin (1 / 32)\<rparr>)"
proof -
  have p: "(1::rat) \<le> 2 powi 200" using two_powi_le_iff[of 0 200] by simp
  have "(2::rat) powi 9 \<le> 2 powi 200" by (simp only: two_powi_le_iff)
  then have q: "(512::rat) \<le> 2 powi 200" by simp
  have f: "float_within 0 (2 powi 200) (Fin (1 / 32))" "float_within 0 (2 powi 200) (Fin 74)"
    "float_within 0 (2 powi 200) (Fin 3)"
    "float_within 0 (2 powi 200) (Fin (5764607523034235 / 2305843009213693952))"
    "(300::rat) \<le> 2 powi 200" "(120::rat) \<le> 2 powi 200"
    unfolding float_within_def using p q by simp_all
  show ?thesis unfolding cover_spec_in_range_def thin_args_sel using f by simp
qed

section \<open>The specified properties\<close>

text \<open>
  C1 (as the code has it). Whenever the layout is computed, whatever the canvas
  constructor of the imaging library, the right edge of the front
  panel plus the bleed, \<open>front.x + front.width + bleed_px\<close>, equals
  \<open>2 * page_w_px + spine_px + 2 * bleed_px\<close>, and the back panel starts at \<open>bleed_px\<close>.
  Each of \<open>page_w_px\<close>, \<open>spine_px\<close> and \<open>bleed_px\<close> is the \<open>mm_to_px\<close> conversion of its
  own mm quantity. The canvas width is a further conversion, of the float sum
  \<open>width_mm * 2 + spine_mm + 2 * bleed_mm\<close>, rounded on its own: it is not computed from
  the panel widths and need not equal their sum. For \<open>0 \<le> dpi \<le> 2^20\<close>, a page count of
  magnitude at most \<open>2^10\<close>, a width and a bleed of magnitude at most \<open>2^20\<close> mm and a
  thickness of magnitude at most \<open>2^10\<close> mm the two differ by at most 3 px.
\<close>

theorem canvas_width_rounding:
  assumes "generate_print_wrap_cover_a8 new a = Inr L"
  shows "front_cover_x L + page_w_px L + bleed_px L = 2 * page_w_px L + spine_px L + 2 * bleed_px L
    \<and> back_cover_x L = bleed_px L
    \<and> mm_to_px (width_mm a) (dpi a) = Inr (page_w_px L)
    \<and> mm_to_px (spine_mm L) (dpi a) = Inr (spine_px L)
    \<and> mm_to_px (bleed_mm a) (dpi a) = Inr (bleed_px L)
    \<and> mm_to_px (full_w_mm L) (dpi a) = Inr (full_w_px L)
    \<and> full_w_mm L = fadd (fadd (fmul (width_mm a) (Fin 2)) (spine_mm L)) (fmul (Fin 2) (bleed_mm a))
    \<and> (0 \<le> dpi a \<and> dpi a \<le> 2 ^ 20 \<and> \<bar>page_count a\<bar> \<le> 2 ^ 10
        \<and> float_within (- (2 ^ 20)) (2 ^ 20) (width_mm a)
        \<and> float_within (- (2 ^ 20)) (2 ^ 20) (bleed_mm a)
        \<and> float_within (- (2 ^ 10)) (2 ^ 10) (thickness_per_page_mm a)
       \<longrightarrow> \<bar>full_w_px L - (2 * page_w_px L + spine_px L + 2 * bleed_px L)\<bar> \<le> 3)"
proof -
  note f = cover_InrD[OF assms]
  have e: "front_cover_x L + page_w_px L + bleed_px L = 2 * page_w_px L + spine_px L + 2 * bleed_px L"
    using f(10,11,12) by simp
  have d: "\<bar>full_w_px L - (2 * page_w_px L + spine_px L + 2 * bleed_px L)\<bar> \<le> 3"
    if "0 \<le> dpi a \<and> dpi a \<le> 2 ^ 20 \<and> \<bar>page_count a\<bar> \<le> 2 ^ 10
        \<and> float_within (- (2 ^ 20)) (2 ^ 20) (width_mm a)
        \<and> float_within (- (2 ^ 20)) (2 ^ 20) (bleed_mm a)
        \<and> float_within (- (2 ^ 10)) (2 ^ 10) (thickness_per_page_mm a)"
    by (rule canvas_drift[OF assms]) (use that in blast)+
  show ?thesis using e f(2,4,6,7,9,10) d by blast
qed

text \<open>
  The A8 defaults with 120 pages: the panels and the bleed add up to 1302, the canvas is
  1303 px wide.
\<close>

theorem canvas_width_rounding_witness:
  "generate_print_wrap_cover_a8 Image_new_enough_memory (a8_default_args 120) = Inr (projr (generate_print_wrap_cover_a8 Image_new_enough_memory (a8_default_args 120)))
   \<and> front_cover_x (projr (generate_print_wrap_cover_a8 Image_new_enough_memory (a8_default_args 120))) + 614 + 35 = 2 * 614 + 4 + 2 * 35
   \<and> mm_to_px (Fin 52) 300 = Inr 614
   \<and> float_within (- (2 ^ 20)) (2 ^ 20) (width_mm (a8_default_args 120))
   \<and> \<bar>(1303::int) - (2 * 614 + 4 + 2 * 35)\<bar> \<le> 3"
proof -
  have r: "generate_print_wrap_cover_a8 Image_new_enough_memory (a8_default_args 120) = Inr (projr (generate_print_wrap_cover_a8 Image_new_enough_memory (a8_default_args 120)))"
    by (simp add: cover_a8_120)
  have h: "0 \<le> dpi (a8_default_args 120) \<and> dpi (a8_default_args 120) \<le> 2 ^ 20
        \<and> \<bar>page_count (a8_default_args 120)\<bar> \<le> 2 ^ 10
        \<and> float_within (- (2 ^ 20)) (2 ^ 20) (width_mm (a8_default_args 120))
        \<and> float_within (- (2 ^ 20)) (2 ^ 20) (bleed_mm (a8_default_args 120))
        \<and> float_within (- (2 ^ 10)) (2 ^ 10) (thickness_per_page_mm (a8_default_args 120))"
    by (simp add: a8_default_args_sel float_within_def)
  from canvas_width_rounding[OF r] h
  have "front_cover_x (projr (generate_print_wrap_cover_a8 Image_new_enough_memory (a8_default_args 120))) + page_w_px (projr (generate_print_wrap_cover_a8 Image_new_enough_memory (a8_default_args 120))) + bleed_px (projr (generate_print_wrap_cover_a8 Image_new_enough_memory (a8_default_args 120)))
      = 2 * page_w_px (projr (generate_print_wrap_cover_a8 Image_new_enough_memory (a8_default_args 120))) + spine_px (projr (generate_print_wrap_cover_a8 Image_new_enough_memory (a8_default_args 120))) + 2 * bleed_px (projr (generate_print_wrap_cover_a8 Image_new_enough_memory (a8_default_args 120)))"
    and "mm_to_px (width_mm (a8_default_args 120)) (dpi (a8_default_args 120)) = Inr (page_w_px (projr (generate_print_wrap_cover_a8 Image_new_enough_memory (a8_default_args 120))))"
    and "\<bar>full_w_px (projr (generate_print_wrap_cover_a8 Image_new_enough_memory (a8_default_args 120))) - (2 * page_w_px (projr (generate_print_wrap_cover_a8 Image_new_enough_memory (a8_default_args 120))) + spine_px (projr (generate_print_wrap_cover_a8 Image_new_enough_memory (a8_default_args 120))) + 2 * bleed_px (projr (generate_print_wrap_cover_a8 Image_new_enough_memory (a8_default_args 120))))\<bar> \<le> 3"
    by blast+
  then show ?thesis using r h by (simp add: layout_120_fields a8_default_args_sel)
qed

text \<open>
  C1 as stated fails at the A8 defaults with 120 pages: the canvas is 1303 px wide, the
  panels and the two bleed margins add up to 1302 px.
\<close>

theorem canvas_width_counterexample:
  "\<not> isl (generate_print_wrap_cover_a8 Image_new_enough_memory (a8_default_args 120))
   \<and> full_w_px (projr (generate_print_wrap_cover_a8 Image_new_enough_memory (a8_default_args 120))) = 1303
   \<and> 2 * page_w_px (projr (generate_print_wrap_cover_a8 Image_new_enough_memory (a8_default_args 120)))
       + spine_px (projr (generate_print_wrap_cover_a8 Image_new_enough_memory (a8_default_args 120)))
       + 2 * bleed_px (projr (generate_print_wrap_cover_a8 Image_new_enough_memory (a8_default_args 120))) = 1302
   \<and> front_cover_x (projr (generate_print_wrap_cover_a8 Image_new_enough_memory (a8_default_args 120)))
       + page_w_px (projr (generate_print_wrap_cover_a8 Image_new_enough_memory (a8_default_args 120)))
       + bleed_px (projr (generate_print_wrap_cover_a8 Image_new_enough_memory (a8_default_args 120))) = 1302"
  by (simp add: layout_120_fields)

text \<open>
  52 mm at 0 dpi and at -300 dpi.
\<close>

theorem mm_to_px_nonpositive_dpi_witness:
  "\<bar>52 :: rat\<bar> \<le> 2 powi 1024 \<and> mm_to_px (Fin 52) 0 = Inr 0
   \<and> mm_to_px (Fin 52) (- 300) = Inr (- 614)"
proof -
  have h: "\<bar>52 :: rat\<bar> \<le> 2 powi 1024" by simp
  from mm_to_px_nonpositive_dpi[of "Fin 52" 300] have "mm_to_px (Fin 52) 0 = Inr 0"
    using h by blast
  moreover from mm_to_px_nonpositive_dpi[of "Fin 52" 300] have "mm_to_px (Fin 52) (- 300) = Inr (- 614)"
    by (simp add: px_52)
  ultimately show ?thesis using h by blast
qed

text \<open>
  C2 as stated fails: at \<open>dpi = 0\<close> and at \<open>dpi = -300\<close> the conversion of 52 mm returns a
  value, 0 and -614, and raises nothing.
\<close>

theorem mm_to_px_nonpositive_dpi_counterexample:
  "mm_to_px (Fin 52) 0 = Inr 0 \<and> mm_to_px (Fin 52) (- 300) = Inr (- 614)"
proof
  have "\<bar>52 :: rat\<bar> \<le> 2 powi 1024" by simp
  then show "mm_to_px (Fin 52) 0 = Inr 0" by (rule mm_to_px_dpi_zero)
  show "mm_to_px (Fin 52) (- 300) = Inr (- 614)"
    using mm_to_px_neg_dpi[of "Fin 52" 300] by (simp add: px_52)
qed

text \<open>
  -120 pages at the default thickness: the float \<^verbatim>\<open>-0.3\<close>.
\<close>

theorem compute_spine_width_mm_product_witness:
  "\<bar>- 120 :: int\<bar> < 2 ^ 53
   \<and> compute_spine_width_mm (- 120) DEFAULT_PAPER_THICKNESS_MM_PER_PAGE
     = Inr (Fin (- (5404319552844595 / 18014398509481984)))"
proof -
  have h: "\<bar>- 120 :: int\<bar> < 2 ^ 53" by simp
  from compute_spine_width_mm_product[OF h, of DEFAULT_PAPER_THICKNESS_MM_PER_PAGE]
  show ?thesis using spine_minus_120_val by (simp add: default_thickness_val)
qed

text \<open>
  C3 as stated fails: a page count of -120 is not rejected, the result is the float
  \<^verbatim>\<open>-0.3\<close>.
\<close>

theorem compute_spine_width_mm_negative_counterexample:
  "compute_spine_width_mm (- 120) DEFAULT_PAPER_THICKNESS_MM_PER_PAGE
     = Inr (Fin (- (5404319552844595 / 18014398509481984)))"
  using spine_minus_120_val int_to_float_small[of "- 120"]
  by (simp add: compute_spine_width_mm_def bind_res_def default_thickness_val)

text \<open>
  C4 (as the code has it). The function makes no check of its own on a pixel dimension.
  The canvas size is handed as it is to \<^verbatim>\<open>Image.new\<close>: whenever the panel positions are
  computed, that call returned for the computed canvas size. For every input with
  \<open>dpi > 0\<close>, \<open>page_count \<ge> 0\<close> and finite non-negative mm quantities, all of magnitude at
  most \<open>2^200\<close>, the canvas size is computed and not negative; if \<^verbatim>\<open>Image.new\<close> raises for
  it, that exception is the result, and if it returns, the panel positions are computed
  with every component dimension at least 0, a dimension equal to 0 included.
\<close>

theorem cover_no_dimension_check:
  "(generate_print_wrap_cover_a8 new a = Inr L \<longrightarrow>
      canvas_px a = Inr (full_w_px L, full_h_px L) \<and> new (full_w_px L) (full_h_px L) = Inr ())
   \<and> (cover_spec_in_range a \<longrightarrow>
      (\<exists>w h. canvas_px a = Inr (w, h) \<and> 0 \<le> w \<and> 0 \<le> h
         \<and> (\<forall>e. new w h = Inl e \<longrightarrow> generate_print_wrap_cover_a8 new a = Inl e)
         \<and> (new w h = Inr () \<longrightarrow>
              (\<exists>L'. generate_print_wrap_cover_a8 new a = Inr L' \<and> full_w_px L' = w
                 \<and> full_h_px L' = h \<and> 0 \<le> bleed_px L' \<and> 0 \<le> page_w_px L'
                 \<and> 0 \<le> page_h_px L' \<and> 0 \<le> spine_px L'))))"
proof (intro conjI impI)
  assume g: "generate_print_wrap_cover_a8 new a = Inr L"
  show "canvas_px a = Inr (full_w_px L, full_h_px L)" by (rule cover_InrD(14)[OF g])
  show "new (full_w_px L) (full_h_px L) = Inr ()" by (rule cover_InrD(13)[OF g])
next
  assume "cover_spec_in_range a"
  then show "\<exists>w h. canvas_px a = Inr (w, h) \<and> 0 \<le> w \<and> 0 \<le> h
         \<and> (\<forall>e. new w h = Inl e \<longrightarrow> generate_print_wrap_cover_a8 new a = Inl e)
         \<and> (new w h = Inr () \<longrightarrow>
              (\<exists>L'. generate_print_wrap_cover_a8 new a = Inr L' \<and> full_w_px L' = w
                 \<and> full_h_px L' = h \<and> 0 \<le> bleed_px L' \<and> 0 \<le> page_w_px L'
                 \<and> 0 \<le> page_h_px L' \<and> 0 \<le> spine_px L'))"
    by (rule cover_in_range_total)
qed

text \<open>
  The A8 defaults with 120 pages and a trim width of 1/32 mm: a canvas of 75 x 945 px and
  a page width of 0 px, with a constructor that returns; and the same input with a
  constructor that raises \<^verbatim>\<open>MemoryError\<close>.
\<close>

theorem cover_no_dimension_check_witness:
  "cover_spec_in_range ((a8_default_args 120)\<lparr>width_mm := Fin (1 / 32)\<rparr>)
   \<and> canvas_px ((a8_default_args 120)\<lparr>width_mm := Fin (1 / 32)\<rparr>) = Inr (75, 945)
   \<and> Image_new_enough_memory 75 945 = Inr ()
   \<and> (\<exists>L'. generate_print_wrap_cover_a8 Image_new_enough_memory ((a8_default_args 120)\<lparr>width_mm := Fin (1 / 32)\<rparr>) = Inr L'
        \<and> full_w_px L' = 75 \<and> full_h_px L' = 945 \<and> 0 \<le> page_w_px L')
   \<and> (\<lambda>w h. Inl MemoryError) (75 :: int) (945 :: int) = (Inl MemoryError :: pyerror + unit)
   \<and> generate_print_wrap_cover_a8 (\<lambda>w h. Inl MemoryError) ((a8_default_args 120)\<lparr>width_mm := Fin (1 / 32)\<rparr>) = Inl MemoryError"
proof -
  let ?a = "((a8_default_args 120)\<lparr>width_mm := Fin (1 / 32)\<rparr>)"
  let ?no = "(\<lambda>w h. Inl MemoryError) :: image_new"
  have r: "cover_spec_in_range ?a" by (rule thin_in_range)
  have g: "generate_print_wrap_cover_a8 Image_new_enough_memory ?a = Inr (projr (generate_print_wrap_cover_a8 Image_new_enough_memory ((a8_default_args 120)\<lparr>width_mm := Fin (1 / 32)\<rparr>)))"
    by (simp add: cover_thin)
  have u: "Image_new_enough_memory 75 945 = Inr ()" by (simp add: Image_new_enough_memory_def)
  from cover_no_dimension_check[of Image_new_enough_memory ?a "projr (generate_print_wrap_cover_a8 Image_new_enough_memory ((a8_default_args 120)\<lparr>width_mm := Fin (1 / 32)\<rparr>))"] g
  have c: "canvas_px ?a = Inr (75, 945)" by (simp add: cover_thin)
  from cover_no_dimension_check[of Image_new_enough_memory ?a "projr (generate_print_wrap_cover_a8 Image_new_enough_memory ((a8_default_args 120)\<lparr>width_mm := Fin (1 / 32)\<rparr>))"] r c u
  have ok: "\<exists>L'. generate_print_wrap_cover_a8 Image_new_enough_memory ?a = Inr L'
        \<and> full_w_px L' = 75 \<and> full_h_px L' = 945 \<and> 0 \<le> page_w_px L'"
    by auto
  from cover_no_dimension_check[of ?no ?a "projr (generate_print_wrap_cover_a8 Image_new_enough_memory ((a8_default_args 120)\<lparr>width_mm := Fin (1 / 32)\<rparr>))"] r c
  have er: "generate_print_wrap_cover_a8 ?no ?a = Inl MemoryError" by auto
  show ?thesis using r c u ok er by simp
qed

text \<open>
  C4 as stated fails at the A8 defaults with 120 pages and a trim width of 1/32 mm: the
  canvas of 75 x 945 px is built, the page width and the widths of the back and the front
  panel are 0 px, and the panel positions are computed.
\<close>

theorem cover_zero_dimension_counterexample:
  "Image_new_enough_memory 75 945 = Inr ()
   \<and> generate_print_wrap_cover_a8 Image_new_enough_memory ((a8_default_args 120)\<lparr>width_mm := Fin (1 / 32)\<rparr>)
     = Inr \<lparr>spine_mm = Fin (5404319552844595 / 18014398509481984),
          full_w_mm = Fin (7163538157286195 / 1125899906842624), full_h_mm = Fin 80,
          full_w_px = 75, full_h_px = 945, bleed_px = 35, page_w_px = 0, page_h_px = 874,
          spine_px = 4, back_cover_x = 35, spine_x = 35, front_cover_x = 39\<rparr>
   \<and> page_w_px (projr (generate_print_wrap_cover_a8 Image_new_enough_memory ((a8_default_args 120)\<lparr>width_mm := Fin (1 / 32)\<rparr>))) \<le> 0
   \<and> rect_width (back_rect (projr (generate_print_wrap_cover_a8 Image_new_enough_memory ((a8_default_args 120)\<lparr>width_mm := Fin (1 / 32)\<rparr>)))) \<le> 0
   \<and> rect_width (front_rect (projr (generate_print_wrap_cover_a8 Image_new_enough_memory ((a8_default_args 120)\<lparr>width_mm := Fin (1 / 32)\<rparr>)))) \<le> 0"
  by (simp add: cover_thin Image_new_enough_memory_def back_rect_def front_rect_def rect_width_def)


text \<open>
  C7. Trim 52 x 74 mm, bleed 3 mm, 300 dpi, 120 pages of 0.0025 mm: the spine is the
  float \<^verbatim>\<open>0.3\<close>, the full cover the floats \<^verbatim>\<open>110.3\<close> by \<^verbatim>\<open>80.0\<close> mm, the canvas
  1303 x 945 px, the panels 614, 4 and 614 px wide, the bleed margin 35 px. The layout is
  the result for every canvas constructor that returns for 1303 x 945.
\<close>

theorem a8_concrete_scenario:
  "compute_spine_width_mm 120 (fl (25 / 10000)) = Inr (fl (3 / 10))
   \<and> canvas_px
       \<lparr>page_count = 120, width_mm = Fin 52, height_mm = Fin 74, bleed_mm = Fin 3, dpi = 300,
        thickness_per_page_mm = fl (25 / 10000)\<rparr> = Inr (1303, 945)
   \<and> (new 1303 945 = Inr () \<longrightarrow>
       generate_print_wrap_cover_a8 new
         \<lparr>page_count = 120, width_mm = Fin 52, height_mm = Fin 74, bleed_mm = Fin 3, dpi = 300,
          thickness_per_page_mm = fl (25 / 10000)\<rparr>
       = Inr \<lparr>spine_mm = fl (3 / 10), full_w_mm = fl (1103 / 10), full_h_mm = Fin 80,
            full_w_px = 1303, full_h_px = 945, bleed_px = 35, page_w_px = 614, page_h_px = 874,
            spine_px = 4, back_cover_x = 35, spine_x = 649, front_cover_x = 653\<rparr>)
   \<and> rect_width (back_rect (projr (generate_print_wrap_cover_a8 Image_new_enough_memory (a8_default_args 120)))) = 614
   \<and> rect_width (spine_rect (projr (generate_print_wrap_cover_a8 Image_new_enough_memory (a8_default_args 120)))) = 4
   \<and> rect_width (front_rect (projr (generate_print_wrap_cover_a8 Image_new_enough_memory (a8_default_args 120)))) = 614
   \<and> rect_x0 (back_rect (projr (generate_print_wrap_cover_a8 Image_new_enough_memory (a8_default_args 120)))) = 35"
proof -
  have a: "\<lparr>page_count = 120, width_mm = Fin 52, height_mm = Fin 74, bleed_mm = Fin 3, dpi = 300,
        thickness_per_page_mm = fl (25 / 10000)\<rparr> = a8_default_args 120"
    by (simp add: a8_default_args_def A8_MM_def DEFAULT_BLEED_MM_def DEFAULT_DPI_def
        DEFAULT_PAPER_THICKNESS_MM_PER_PAGE_def)
  have t: "fl (25 / 10000) = Fin (5764607523034235 / 2305843009213693952)"
    using default_thickness_val by (simp only: DEFAULT_PAPER_THICKNESS_MM_PER_PAGE_def)
  have s: "compute_spine_width_mm 120 (fl (25 / 10000)) = Inr (fl (3 / 10))"
    unfolding t lit_0_3 using spine_120_val int_to_float_small[of 120]
    by (simp add: compute_spine_width_mm_def bind_res_def)
  have c: "canvas_px (a8_default_args 120) = Inr (1303, 945)"
    using cover_InrD(14)[OF cover_a8_120] by simp
  have g: "generate_print_wrap_cover_a8 new (a8_default_args 120)
       = Inr \<lparr>spine_mm = fl (3 / 10), full_w_mm = fl (1103 / 10), full_h_mm = Fin 80,
            full_w_px = 1303, full_h_px = 945, bleed_px = 35, page_w_px = 614, page_h_px = 874,
            spine_px = 4, back_cover_x = 35, spine_x = 649, front_cover_x = 653\<rparr>"
    if "new 1303 945 = Inr ()"
    unfolding lit_0_3 lit_110_3 using that by (rule cover_a8_120_gen)
  have w: "rect_width (back_rect (projr (generate_print_wrap_cover_a8 Image_new_enough_memory (a8_default_args 120)))) = 614"
    "rect_width (spine_rect (projr (generate_print_wrap_cover_a8 Image_new_enough_memory (a8_default_args 120)))) = 4"
    "rect_width (front_rect (projr (generate_print_wrap_cover_a8 Image_new_enough_memory (a8_default_args 120)))) = 614"
    "rect_x0 (back_rect (projr (generate_print_wrap_cover_a8 Image_new_enough_memory (a8_default_args 120)))) = 35"
    by (simp_all add: back_rect_def spine_rect_def front_rect_def rect_width_def layout_120_fields)
  show ?thesis unfolding a using s c g w by blast
qed

text \<open>
  The stand-in constructor returns for 1303 x 945.
\<close>

theorem a8_concrete_scenario_witness:
  "Image_new_enough_memory 1303 945 = Inr ()
   \<and> generate_print_wrap_cover_a8 Image_new_enough_memory
         \<lparr>page_count = 120, width_mm = Fin 52, height_mm = Fin 74, bleed_mm = Fin 3, dpi = 300,
          thickness_per_page_mm = fl (25 / 10000)\<rparr>
       = Inr \<lparr>spine_mm = fl (3 / 10), full_w_mm = fl (1103 / 10), full_h_mm = Fin 80,
            full_w_px = 1303, full_h_px = 945, bleed_px = 35, page_w_px = 614, page_h_px = 874,
            spine_px = 4, back_cover_x = 35, spine_x = 649, front_cover_x = 653\<rparr>"
proof -
  have u: "Image_new_enough_memory 1303 945 = Inr ()" by (simp add: Image_new_enough_memory_def)
  from a8_concrete_scenario[of Image_new_enough_memory] u show ?thesis by blast
qed

text \<open>
  C8. With \<open>page_count = 0\<close>, whenever the layout is computed the spine panel is 0 px wide
  and the front panel starts where the back panel ends. For every such input with
  \<open>dpi > 0\<close> and finite non-negative mm quantities, all of magnitude at most \<open>2^200\<close>, the
  canvas size is computed and not negative, and the layout is computed when \<^verbatim>\<open>Image.new\<close>
  returns for it; when \<^verbatim>\<open>Image.new\<close> raises, its exception is the result.
\<close>

theorem zero_pages_panels_abut:
  assumes "page_count a = 0"
  shows "(generate_print_wrap_cover_a8 new a = Inr L \<longrightarrow>
      spine_px L = 0 \<and> rect_width (spine_rect L) = 0
      \<and> front_cover_x L = back_cover_x L + page_w_px L
      \<and> rect_x0 (front_rect L) = rect_x0 (back_rect L) + rect_width (back_rect L))
   \<and> (cover_spec_in_range a \<longrightarrow>
      (\<exists>w h. canvas_px a = Inr (w, h) \<and> 0 \<le> w \<and> 0 \<le> h
         \<and> (\<forall>e. new w h = Inl e \<longrightarrow> generate_print_wrap_cover_a8 new a = Inl e)
         \<and> (new w h = Inr () \<longrightarrow> (\<exists>L'. generate_print_wrap_cover_a8 new a = Inr L'))))"
proof (rule conjI)
  show "generate_print_wrap_cover_a8 new a = Inr L \<longrightarrow>
      spine_px L = 0 \<and> rect_width (spine_rect L) = 0
      \<and> front_cover_x L = back_cover_x L + page_w_px L
      \<and> rect_x0 (front_rect L) = rect_x0 (back_rect L) + rect_width (back_rect L)"
    using zero_pages_layout[OF assms, of new L] by (rule impI)
  show "cover_spec_in_range a \<longrightarrow>
      (\<exists>w h. canvas_px a = Inr (w, h) \<and> 0 \<le> w \<and> 0 \<le> h
         \<and> (\<forall>e. new w h = Inl e \<longrightarrow> generate_print_wrap_cover_a8 new a = Inl e)
         \<and> (new w h = Inr () \<longrightarrow> (\<exists>L'. generate_print_wrap_cover_a8 new a = Inr L')))"
    using cover_in_range_total[of a new] by blast
qed

text \<open>
  The A8 defaults with no pages: a canvas of 1299 x 945 px.
\<close>

theorem zero_pages_panels_abut_witness:
  "page_count (a8_default_args 0) = 0 \<and> cover_spec_in_range (a8_default_args 0)
   \<and> canvas_px (a8_default_args 0) = Inr (1299, 945)
   \<and> Image_new_enough_memory 1299 945 = Inr ()
   \<and> generate_print_wrap_cover_a8 Image_new_enough_memory (a8_default_args 0) = Inr (projr (generate_print_wrap_cover_a8 Image_new_enough_memory (a8_default_args 0)))
   \<and> spine_px (projr (generate_print_wrap_cover_a8 Image_new_enough_memory (a8_default_args 0))) = 0
   \<and> front_cover_x (projr (generate_print_wrap_cover_a8 Image_new_enough_memory (a8_default_args 0))) = 35 + 614
   \<and> (\<exists>L'. generate_print_wrap_cover_a8 Image_new_enough_memory (a8_default_args 0) = Inr L')"
proof -
  have r: "generate_print_wrap_cover_a8 Image_new_enough_memory (a8_default_args 0) = Inr (projr (generate_print_wrap_cover_a8 Image_new_enough_memory (a8_default_args 0)))"
    by (simp add: cover_a8_0)
  have p: "page_count (a8_default_args 0) = 0" by (simp add: a8_default_args_sel)
  have c: "canvas_px (a8_default_args 0) = Inr (1299, 945)"
    using cover_InrD(14)[OF cover_a8_0] by simp
  have u: "Image_new_enough_memory 1299 945 = Inr ()" by (simp add: Image_new_enough_memory_def)
  note t = zero_pages_panels_abut[OF p, of Image_new_enough_memory "projr (generate_print_wrap_cover_a8 Image_new_enough_memory (a8_default_args 0))"]
  from t r
  have "spine_px (projr (generate_print_wrap_cover_a8 Image_new_enough_memory (a8_default_args 0))) = 0"
    and "front_cover_x (projr (generate_print_wrap_cover_a8 Image_new_enough_memory (a8_default_args 0))) = back_cover_x (projr (generate_print_wrap_cover_a8 Image_new_enough_memory (a8_default_args 0))) + page_w_px (projr (generate_print_wrap_cover_a8 Image_new_enough_memory (a8_default_args 0)))"
    by blast+
  moreover from t a8_default_in_range(1) c u
  have "\<exists>L'. generate_print_wrap_cover_a8 Image_new_enough_memory (a8_default_args 0) = Inr L'"
    by auto
  ultimately show ?thesis using p r c u a8_default_in_range(1) by (simp add: cover_a8_0)
qed

text \<open>
  C9. For \<open>dpi > 0\<close> and \<open>0 \<le> mm1 \<le> mm2\<close>: when the conversion of \<open>mm2\<close> returns, so
  does the conversion of \<open>mm1\<close>, with a result that is not larger; and the conversion
  of 0 returns 0. For \<open>dpi \<le> 2^400\<close> and \<open>mm2 \<le> 2^400\<close> both conversions return, so
  there \<open>mm_to_px mm1 dpi \<le> mm_to_px mm2 dpi\<close> holds outright.
\<close>

theorem mm_to_px_monotone:
  assumes "0 < d" "fle (Fin 0) mm1" "fle mm1 mm2"
  shows "(mm_to_px mm2 d = Inr b \<longrightarrow>
      (\<exists>a. mm_to_px mm1 d = Inr a \<and> a \<le> b) \<and> mm_to_px (Fin 0) d = Inr 0)
   \<and> (of_int d \<le> (2::rat) powi 400 \<and> fle mm2 (Fin (2 powi 400)) \<longrightarrow>
      (\<exists>a b'. mm_to_px mm1 d = Inr a \<and> mm_to_px mm2 d = Inr b' \<and> a \<le> b'
         \<and> mm_to_px (Fin 0) d = Inr 0))"
proof (intro conjI impI)
  assume r: "mm_to_px mm2 d = Inr b"
  from mm_to_px_mono_zero[OF assms r]
  show "\<exists>a. mm_to_px mm1 d = Inr a \<and> a \<le> b" "mm_to_px (Fin 0) d = Inr 0" by blast+
next
  assume h: "of_int d \<le> (2::rat) powi 400 \<and> fle mm2 (Fin (2 powi 400))"
  note h2 = conjunct2[OF h]
  obtain q1 q2 where q1: "mm1 = Fin q1" "0 \<le> q1" and q2: "mm2 = Fin q2" "q1 \<le> q2" "q2 \<le> 2 powi 400"
    using assms(2,3) h2 by (cases mm1; cases mm2) (simp_all del: power_int_numeral)
  have q0: "0 \<le> q2" using q1(2) q2(2) by linarith
  have d0: "0 \<le> d" using assms(1) by simp
  have k: "(0::int) \<le> 400" "(400::int) + 400 \<le> 1023" by simp_all
  obtain b' where b': "mm_to_px (Fin q2) d = Inr b'"
    using mm_to_px_bounded_nonneg[OF q0 q2(3) d0 conjunct1[OF h] k(1) k(1) k(2)] by blast
  from mm_to_px_mono_zero[OF assms b'[folded q2(1)]] b'
  show "\<exists>a b'. mm_to_px mm1 d = Inr a \<and> mm_to_px mm2 d = Inr b' \<and> a \<le> b'
         \<and> mm_to_px (Fin 0) d = Inr 0"
    unfolding q2(1) by blast
qed

text \<open>
  0, 3 and 52 mm at 300 dpi.
\<close>

theorem mm_to_px_monotone_witness:
  "0 < (300::int) \<and> fle (Fin 0) (Fin 3) \<and> fle (Fin 3) (Fin 52) \<and> mm_to_px (Fin 52) 300 = Inr 614
   \<and> (\<exists>a. mm_to_px (Fin 3) 300 = Inr a \<and> a \<le> 614) \<and> mm_to_px (Fin 0) 300 = Inr 0
   \<and> of_int (300::int) \<le> (2::rat) powi 400 \<and> fle (Fin 52) (Fin (2 powi 400))
   \<and> (\<exists>a b'. mm_to_px (Fin 3) 300 = Inr a \<and> mm_to_px (Fin 52) 300 = Inr b' \<and> a \<le> b')"
proof -
  have h: "0 < (300::int)" "fle (Fin 0) (Fin 3)" "fle (Fin 3) (Fin 52)" by simp_all
  have "(2::rat) powi 9 \<le> 2 powi 400" by (simp only: two_powi_le_iff)
  then have g: "of_int (300::int) \<le> (2::rat) powi 400 \<and> fle (Fin 52) (Fin (2 powi 400))" by simp
  from mm_to_px_monotone[OF h, of 614] px_52 g show ?thesis using h by blast
qed

text \<open>
  C10 (as the code has it). The result of \<open>mm_to_px\<close> is the integer nearest to the float
  value of \<^verbatim>\<open>mm / 25.4 * dpi\<close> (the division rounded to a float, then the product
  rounded to a float), a tie going to the even integer. For \<open>\<bar>mm\<bar> \<le> 2^20\<close> and
  \<open>0 \<le> dpi \<le> 2^20\<close> it is within \<open>1/2 + 2^-15\<close> of the exact \<open>mm * dpi / 25.4\<close>. The six
  pixel quantities of the layout are all results of \<open>mm_to_px\<close>.
\<close>

theorem mm_to_px_rounding_policy:
  "(mm_to_px (Fin q) d = Inr n \<longrightarrow>
      (\<exists>x r v. fdiv (Fin q) c25_4 = Inr (Fin x) \<and> int_to_float d = Inr (Fin r)
         \<and> fmul (Fin x) (Fin r) = Fin v \<and> n = round_half_even v
         \<and> \<bar>of_int n - v\<bar> \<le> 1 / 2 \<and> (\<bar>of_int n - v\<bar> = 1 / 2 \<longrightarrow> even n)))
   \<and> (mm_to_px (Fin q) d = Inr n \<and> \<bar>q\<bar> \<le> 2 ^ 20 \<and> 0 \<le> d \<and> d \<le> 2 ^ 20 \<longrightarrow>
        \<bar>of_int n - q * of_int d / (254 / 10)\<bar> \<le> 1 / 2 + 1 / 2 ^ 15)
   \<and> (generate_print_wrap_cover_a8 new a = Inr L \<longrightarrow>
        mm_to_px (full_w_mm L) (dpi a) = Inr (full_w_px L)
      \<and> mm_to_px (full_h_mm L) (dpi a) = Inr (full_h_px L)
      \<and> mm_to_px (bleed_mm a) (dpi a) = Inr (bleed_px L)
      \<and> mm_to_px (width_mm a) (dpi a) = Inr (page_w_px L)
      \<and> mm_to_px (height_mm a) (dpi a) = Inr (page_h_px L)
      \<and> mm_to_px (spine_mm L) (dpi a) = Inr (spine_px L))"
proof (intro conjI impI)
  assume "mm_to_px (Fin q) d = Inr n"
  then obtain x r v where f: "fl (q / (3574732204225331 / 140737488355328)) = Fin x"
    "int_to_float d = Inr (Fin r)" "fl (x * r) = Fin v" "n = round_half_even v"
    by (rule mm_to_px_Inr)
  have "fdiv (Fin q) c25_4 = Inr (Fin x)" using f(1) by (simp add: fdiv_c25_4)
  moreover have "fmul (Fin x) (Fin r) = Fin v" using f(3) by simp
  moreover have "\<bar>of_int n - v\<bar> \<le> 1 / 2" unfolding f(4) by (rule rhe_error)
  moreover have "\<bar>of_int n - v\<bar> = 1 / 2 \<longrightarrow> even n" unfolding f(4) using rhe_tie_even by blast
  ultimately show "\<exists>x r v. fdiv (Fin q) c25_4 = Inr (Fin x) \<and> int_to_float d = Inr (Fin r)
         \<and> fmul (Fin x) (Fin r) = Fin v \<and> n = round_half_even v
         \<and> \<bar>of_int n - v\<bar> \<le> 1 / 2 \<and> (\<bar>of_int n - v\<bar> = 1 / 2 \<longrightarrow> even n)"
    using f(2,4) by blast
next
  assume h: "mm_to_px (Fin q) d = Inr n \<and> \<bar>q\<bar> \<le> 2 ^ 20 \<and> 0 \<le> d \<and> d \<le> 2 ^ 20"
  show "\<bar>of_int n - q * of_int d / (254 / 10)\<bar> \<le> 1 / 2 + 1 / 2 ^ 15"
    by (rule px_result_accuracy) (use h in blast)+
next
  assume g: "generate_print_wrap_cover_a8 new a = Inr L"
  note f = cover_InrD[OF g]
  show "mm_to_px (full_w_mm L) (dpi a) = Inr (full_w_px L)" by (rule f(4))
  show "mm_to_px (full_h_mm L) (dpi a) = Inr (full_h_px L)" by (rule f(5))
  show "mm_to_px (bleed_mm a) (dpi a) = Inr (bleed_px L)" by (rule f(6))
  show "mm_to_px (width_mm a) (dpi a) = Inr (page_w_px L)" by (rule f(7))
  show "mm_to_px (height_mm a) (dpi a) = Inr (page_h_px L)" by (rule f(8))
  show "mm_to_px (spine_mm L) (dpi a) = Inr (spine_px L)" by (rule f(9))
qed

text \<open>
  4.5 mm at 127 dpi, and the page height of the A8 defaults.
\<close>

theorem mm_to_px_rounding_policy_witness:
  "mm_to_px (Fin (9 / 2)) 127 = Inr 23
   \<and> (\<exists>x r v. fdiv (Fin (9 / 2)) c25_4 = Inr (Fin x) \<and> int_to_float 127 = Inr (Fin r)
         \<and> fmul (Fin x) (Fin r) = Fin v \<and> (23::int) = round_half_even v)
   \<and> \<bar>9 / 2 :: rat\<bar> \<le> 2 ^ 20 \<and> (0::int) \<le> 127 \<and> (127::int) \<le> 2 ^ 20
   \<and> \<bar>of_int (23::int) - 9 / 2 * of_int (127::int) / (254 / 10 :: rat)\<bar> \<le> 1 / 2 + 1 / 2 ^ 15
   \<and> generate_print_wrap_cover_a8 Image_new_enough_memory (a8_default_args 120) = Inr (projr (generate_print_wrap_cover_a8 Image_new_enough_memory (a8_default_args 120)))
   \<and> mm_to_px (Fin 74) 300 = Inr (page_h_px (projr (generate_print_wrap_cover_a8 Image_new_enough_memory (a8_default_args 120))))"
proof -
  have r: "generate_print_wrap_cover_a8 Image_new_enough_memory (a8_default_args 120) = Inr (projr (generate_print_wrap_cover_a8 Image_new_enough_memory (a8_default_args 120)))"
    by (simp add: cover_a8_120)
  have h: "\<bar>9 / 2 :: rat\<bar> \<le> 2 ^ 20 \<and> (0::int) \<le> 127 \<and> (127::int) \<le> 2 ^ 20" by simp
  note t = mm_to_px_rounding_policy[of "9 / 2" 127 23 Image_new_enough_memory "a8_default_args 120" "projr (generate_print_wrap_cover_a8 Image_new_enough_memory (a8_default_args 120))"]
  from t px_tie have a: "\<exists>x r v. fdiv (Fin (9 / 2)) c25_4 = Inr (Fin x) \<and> int_to_float 127 = Inr (Fin r)
         \<and> fmul (Fin x) (Fin r) = Fin v \<and> (23::int) = round_half_even v"
    by blast
  from t px_tie h
  have b: "\<bar>of_int (23::int) - 9 / 2 * of_int (127::int) / (254 / 10 :: rat)\<bar> \<le> 1 / 2 + 1 / 2 ^ 15"
    by blast
  from t r have "mm_to_px (height_mm (a8_default_args 120)) (dpi (a8_default_args 120))
      = Inr (page_h_px (projr (generate_print_wrap_cover_a8 Image_new_enough_memory (a8_default_args 120))))"
    by blast
  then have c: "mm_to_px (Fin 74) 300 = Inr (page_h_px (projr (generate_print_wrap_cover_a8 Image_new_enough_memory (a8_default_args 120))))"
    by (simp add: a8_default_args_sel)
  show ?thesis using px_tie a h b r c by blast
qed

text \<open>
  C10 as stated fails at 4.5 mm and 127 dpi: the exact quotient \<open>4.5 * 127 / 25.4\<close> is
  22.5, whose nearest even integer is 22; the float product is just above 22.5 and the
  code returns 23.
\<close>

theorem mm_to_px_exact_tie_counterexample:
  "mm_to_px (Fin (9 / 2)) 127 = Inr 23 \<and> round_half_even (9 / 2 * 127 / (254 / 10)) = 22"
proof
  show "mm_to_px (Fin (9 / 2)) 127 = Inr 23" by (rule px_tie)
  have f: "\<lfloor>45 / 2 :: rat\<rfloor> = 22" by (rule floor_unique) simp_all
  have "round_half_even (45 / 2) = 22"
    by (simp add: round_half_even_def Let_def f)
  then show "round_half_even (9 / 2 * 127 / (254 / 10)) = 22" by simp
qed




end
